theory Spec2Isabelle
  imports Complex_Main "HOL-Library.Multiset"
begin

section \<open>Route planning of \<^verbatim>\<open>app.js\<close>\<close>

text \<open>
  The development embeds the route logic of \<^verbatim>\<open>src/app.js\<close>: \<^verbatim>\<open>planRoute\<close>,
  \<^verbatim>\<open>middlePoint\<close>, \<^verbatim>\<open>closest\<close>, \<^verbatim>\<open>shiftClosestTruck\<close> and \<^verbatim>\<open>extract\<close>, together
  with the part of \<^verbatim>\<open>showRoute\<close> and of the click handler that consumes the result of
  \<^verbatim>\<open>planRoute\<close>.

  Conventions of the model:
  \<^item> A JavaScript Number is an IEEE 754 double: a finite value, an infinity or NaN.
    Every arithmetic operation rounds its exact result to the nearest double, ties to
    even, and overflows to an infinity.
  \<^item> Arrays are mutable objects. They live in a heap, a list of cells indexed by
    address; allocation appends a cell, so a new address is always fresh. A variable
    holding an array holds its address.
  \<^item> A thrown exception is the left injection of a sum.
  \<^item> The \<^verbatim>\<open>while\<close> loop is a \<^theory_text>\<open>partial_function\<close> in the option monad: \<^term>\<open>None\<close>
    is a loop that never ends.
\<close>

subsection \<open>Numbers\<close>

text \<open>
  \<open>Fin x\<close> is the finite double of value \<open>x\<close>. The two zeros are one value: no
  operation of the route logic tells them apart (there is no division by a variable and
  comparison treats them as equal).
\<close>

datatype number = Fin real | PInf | NInf | NaN

text \<open>Rounding of a real to the nearest integer, a tie going to the even one.\<close>

definition rhe :: "real \<Rightarrow> int" where
  "rhe q =
     (let f = \<lfloor>q\<rfloor>; d = q - of_int f in
      if d < 1 / 2 then f else if 1 / 2 < d then f + 1 else if even f then f else f + 1)"

text \<open>
  The exponent of the unit in the last place of a double near \<open>x\<close>: 52 below the binary
  exponent of \<open>x\<close>, which is at least \<open>-1022\<close> (below that the doubles are subnormal
  and equally spaced).
\<close>

definition ulp_exp :: "real \<Rightarrow> int" where
  "ulp_exp x = max \<lfloor>log 2 \<bar>x\<bar>\<rfloor> (- 1022) - 52"

text \<open>
  Rounding of an exact result to a double: to the nearest multiple of the unit in the
  last place, ties to the even multiple; a result of magnitude \<open>2 ^ 1024\<close> or more is an
  infinity.
\<close>

definition round_double :: "real \<Rightarrow> number" where
  "round_double x =
     (if x = 0 then Fin 0
      else let u = 2 powr of_int (ulp_exp x); y = of_int (rhe (x / u)) * u in
           if 2 ^ 1024 \<le> y then PInf else if y \<le> - (2 ^ 1024) then NInf else Fin y)"

text \<open>A real is a double when rounding leaves it as it is.\<close>

definition representable :: "real \<Rightarrow> bool" where
  "representable x \<longleftrightarrow> round_double x = Fin x"

text \<open>
  The operators \<^verbatim>\<open>+\<close>, \<^verbatim>\<open>-\<close>, \<^verbatim>\<open>*\<close>, \<^verbatim>\<open>/ 2\<close>, \<^verbatim>\<open><\<close> and \<^verbatim>\<open>Math.sqrt\<close> on Numbers.
  Each rounds the exact result once; \<^verbatim>\<open>Math.sqrt\<close> is the correctly rounded square root
  of the hardware. A comparison with NaN is false.
\<close>

fun js_add :: "number \<Rightarrow> number \<Rightarrow> number" where
  "js_add NaN _ = NaN"
| "js_add _ NaN = NaN"
| "js_add (Fin a) (Fin b) = round_double (a + b)"
| "js_add PInf NInf = NaN"
| "js_add NInf PInf = NaN"
| "js_add PInf _ = PInf"
| "js_add _ PInf = PInf"
| "js_add NInf _ = NInf"
| "js_add _ NInf = NInf"

fun js_sub :: "number \<Rightarrow> number \<Rightarrow> number" where
  "js_sub NaN _ = NaN"
| "js_sub _ NaN = NaN"
| "js_sub (Fin a) (Fin b) = round_double (a - b)"
| "js_sub PInf PInf = NaN"
| "js_sub NInf NInf = NaN"
| "js_sub PInf _ = PInf"
| "js_sub _ PInf = NInf"
| "js_sub NInf _ = NInf"
| "js_sub _ NInf = PInf"

text \<open>The sign of a Number that is not NaN, for the product with an infinity.\<close>

fun js_sign :: "number \<Rightarrow> int" where
  "js_sign (Fin a) = (if a = 0 then 0 else if 0 < a then 1 else - 1)"
| "js_sign PInf = 1"
| "js_sign NInf = - 1"
| "js_sign NaN = 0"

fun js_mul :: "number \<Rightarrow> number \<Rightarrow> number" where
  "js_mul NaN _ = NaN"
| "js_mul _ NaN = NaN"
| "js_mul (Fin a) (Fin b) = round_double (a * b)"
| "js_mul a b =
     (if js_sign a * js_sign b = 0 then NaN
      else if 0 < js_sign a * js_sign b then PInf else NInf)"

fun js_sqrt :: "number \<Rightarrow> number" where
  "js_sqrt (Fin a) = (if a < 0 then NaN else round_double (sqrt a))"
| "js_sqrt PInf = PInf"
| "js_sqrt NInf = NaN"
| "js_sqrt NaN = NaN"

fun js_half :: "number \<Rightarrow> number" where
  "js_half (Fin a) = round_double (a / 2)"
| "js_half PInf = PInf"
| "js_half NInf = NInf"
| "js_half NaN = NaN"

fun js_lt :: "number \<Rightarrow> number \<Rightarrow> bool" where
  "js_lt NaN _ = False"
| "js_lt _ NaN = False"
| "js_lt (Fin a) (Fin b) = (a < b)"
| "js_lt PInf _ = False"
| "js_lt _ PInf = True"
| "js_lt _ NInf = False"
| "js_lt NInf _ = True"

text \<open>Truthiness of a Number, as \<^verbatim>\<open>if (lastX)\<close> tests it: zero and NaN are falsy.\<close>

fun js_truthy :: "number \<Rightarrow> bool" where
  "js_truthy (Fin a) = (a \<noteq> 0)"
| "js_truthy NaN = False"
| "js_truthy _ = True"

subsection \<open>Data\<close>

text \<open>
  A truck as \<^verbatim>\<open>fetchList\<close> builds it: \<^verbatim>\<open>{id, x, y, ...truck}\<close>. The three fields the
  route logic reads are named; the remaining ones (name, menu, location, ...) are the
  extension part of the record. The fields carry the prefix \<open>truck_\<close> because \<open>id\<close> is
  the identity function of HOL and \<open>x\<close>, \<open>y\<close> are wanted as variable names.
\<close>

record truck =
  truck_id :: nat
  truck_x :: number
  truck_y :: number

type_synonym addr = nat

type_synonym 'a heap = "'a truck_scheme list list"

text \<open>The value of a variable such as \<^verbatim>\<open>displayedList\<close>: \<^verbatim>\<open>undefined\<close> or an array.\<close>

datatype jsval = Undefined | Array addr

text \<open>
  \<open>TypeError\<close> is thrown by a property access or a destructuring of \<^verbatim>\<open>undefined\<close> or
  \<^verbatim>\<open>null\<close>. \<open>NullEntry\<close> is not an exception of the source: it marks the two places
  where \<^verbatim>\<open>extract\<close> would hand \<^verbatim>\<open>null\<close> to \<^verbatim>\<open>dest.push\<close> or \<^verbatim>\<open>dest.unshift\<close>. Cells
  of the model hold trucks only, so the model stops there.
\<close>

datatype error = TypeError | NullEntry

text \<open>The globals \<^verbatim>\<open>planRoute\<close> can see, and the heap.\<close>

record 'a state =
  displayedList :: jsval
  heap :: "'a heap"

subsection \<open>\<^verbatim>\<open>closest\<close>\<close>

text \<open>
  The callback of \<^verbatim>\<open>trucks.reduce(..., null)\<close> in \<^verbatim>\<open>closest\<close>; the accumulator is
  \<^verbatim>\<open>null\<close> or the pair \<^verbatim>\<open>[id, distance]\<close>.
\<close>

definition closest_step ::
  "number \<times> number \<Rightarrow> (nat \<times> number) option \<Rightarrow> 'a truck_scheme \<Rightarrow> (nat \<times> number) option" where
  "closest_step p acc t =
     (let dx = js_sub (fst p) (truck_x t);
          dy = js_sub (snd p) (truck_y t);
          distance = js_sqrt (js_add (js_mul dx dx) (js_mul dy dy))
      in case acc of
           None \<Rightarrow> Some (truck_id t, distance)
         | Some a \<Rightarrow> if js_lt distance (snd a) then Some (truck_id t, distance) else acc)"

definition closest :: "'a truck_scheme list \<Rightarrow> number \<times> number \<Rightarrow> (nat \<times> number) option" where
  "closest trucks p =
     (if length trucks = 0 then None else foldl (closest_step p) None trucks)"

subsection \<open>\<^verbatim>\<open>middlePoint\<close>\<close>

text \<open>
  \<^verbatim>\<open>Math.min(...xs)\<close> and \<^verbatim>\<open>Math.max(...xs)\<close>: NaN when an argument is NaN, otherwise
  the least and the greatest argument; with no argument \<^verbatim>\<open>Infinity\<close> and \<^verbatim>\<open>-Infinity\<close>.
\<close>

definition Math_min :: "number list \<Rightarrow> number" where
  "Math_min vs =
     (if NaN \<in> set vs then NaN else fold (\<lambda>v acc. if js_lt v acc then v else acc) vs PInf)"

definition Math_max :: "number list \<Rightarrow> number" where
  "Math_max vs =
     (if NaN \<in> set vs then NaN else fold (\<lambda>v acc. if js_lt acc v then v else acc) vs NInf)"

definition middlePoint :: "'a truck_scheme list \<Rightarrow> number \<times> number" where
  "middlePoint trucks =
     (let xs = map truck_x trucks;
          ys = map truck_y trucks
      in (js_half (js_add (Math_min xs) (Math_max xs)),
          js_half (js_add (Math_min ys) (Math_max ys))))"

subsection \<open>\<^verbatim>\<open>extract\<close>\<close>

text \<open>\<^verbatim>\<open>Array.prototype.findIndex\<close>; \<^term>\<open>None\<close> is the result \<^verbatim>\<open>-1\<close>.\<close>

fun findIndex :: "('b \<Rightarrow> bool) \<Rightarrow> 'b list \<Rightarrow> nat option" where
  "findIndex p [] = None"
| "findIndex p (v # vs) = (if p v then Some 0 else map_option Suc (findIndex p vs))"

text \<open>What \<^verbatim>\<open>trucks.splice(index, 1)\<close> leaves in the array.\<close>

definition splice_out :: "nat \<Rightarrow> 'b list \<Rightarrow> 'b list" where
  "splice_out index vs = take index vs @ drop (Suc index) vs"

text \<open>
  \<^verbatim>\<open>extract(trucks, id)\<close> on the array at address \<open>trucks\<close>: the removed entry
  (\<^term>\<open>None\<close> for \<^verbatim>\<open>null\<close>) and the heap after the call.
\<close>

definition "extract" :: "addr \<Rightarrow> nat \<Rightarrow> 'a heap \<Rightarrow> 'a truck_scheme option \<times> 'a heap" where
  "extract trucks i h =
     (case findIndex (\<lambda>truck. truck_id truck = i) (h ! trucks) of
        None \<Rightarrow> (None, h)
      | Some index \<Rightarrow> (Some ((h ! trucks) ! index), h[trucks := splice_out index (h ! trucks)]))"

subsection \<open>\<^verbatim>\<open>shiftClosestTruck\<close>\<close>

text \<open>
  \<^verbatim>\<open>dest[0]\<close> and \<^verbatim>\<open>dest.slice(-1)[0]\<close> are \<^verbatim>\<open>undefined\<close> on an empty array, and reading
  \<^verbatim>\<open>head.x\<close> then throws. Destructuring the \<^verbatim>\<open>null\<close> that \<^verbatim>\<open>closest\<close> returns on an empty
  pool throws as well. The route is read again after \<^verbatim>\<open>extract\<close> has run, as the
  source does: this matters when both addresses are the same array.
\<close>

definition shiftClosestTruck :: "addr \<Rightarrow> addr \<Rightarrow> 'a heap \<Rightarrow> error + 'a heap" where
  "shiftClosestTruck source dest h =
     (case h ! dest of
        [] \<Rightarrow> Inl TypeError
      | _ # _ \<Rightarrow>
          (let head = hd (h ! dest); tail = last (h ! dest) in
           case closest (h ! source) (truck_x head, truck_y head) of
             None \<Rightarrow> Inl TypeError
           | Some (nextHeadId, headDistance) \<Rightarrow>
               (case closest (h ! source) (truck_x tail, truck_y tail) of
                  None \<Rightarrow> Inl TypeError
                | Some (nextTailId, tailDistance) \<Rightarrow>
                    if js_lt headDistance tailDistance
                    then (case extract source nextHeadId h of
                            (None, h') \<Rightarrow> Inl NullEntry
                          | (Some t, h') \<Rightarrow> Inr (h'[dest := t # (h' ! dest)]))
                    else (case extract source nextTailId h of
                            (None, h') \<Rightarrow> Inl NullEntry
                          | (Some t, h') \<Rightarrow> Inr (h'[dest := (h' ! dest) @ [t]])))))"

subsection \<open>\<^verbatim>\<open>planRoute\<close>\<close>

text \<open>\<^verbatim>\<open>while (source.length) shiftClosestTruck(source, dest);\<close>\<close>

partial_function (option) route_loop :: "addr \<Rightarrow> addr \<Rightarrow> 'a heap \<Rightarrow> (error + 'a heap) option" where
  "route_loop source dest h =
     (if length (h ! source) \<noteq> 0
      then (case shiftClosestTruck source dest h of
              Inl e \<Rightarrow> Some (Inl e)
            | Inr h' \<Rightarrow> route_loop source dest h')
      else Some (Inr h))"

text \<open>Allocation of a new array, as \<^verbatim>\<open>slice(0)\<close> and the literal \<^verbatim>\<open>[middleTruck]\<close> do.\<close>

definition alloc :: "'a truck_scheme list \<Rightarrow> 'a heap \<Rightarrow> addr \<times> 'a heap" where
  "alloc vs h = (length h, h @ [vs])"

text \<open>
  Lines 129 to 139 of \<^verbatim>\<open>planRoute\<close>, from the copy of \<^verbatim>\<open>displayedList\<close> to the route of
  two trucks; \<open>d\<close> is the address held by \<^verbatim>\<open>displayedList\<close>. The result is the pair of
  addresses \<^verbatim>\<open>source\<close>, \<^verbatim>\<open>dest\<close> and the heap. A \<^verbatim>\<open>null\<close> middle truck throws at
  \<^verbatim>\<open>middleTruck.x\<close>.
\<close>

definition planRoute_seed :: "addr \<Rightarrow> 'a heap \<Rightarrow> error + (addr \<times> addr \<times> 'a heap)" where
  "planRoute_seed d h0 =
     (let (source, h1) = alloc (h0 ! d) h0;
          (x, y) = middlePoint (h1 ! d)
      in case closest (h1 ! source) (x, y) of
           None \<Rightarrow> Inl TypeError
         | Some (middleTruckId, _) \<Rightarrow>
             (case extract source middleTruckId h1 of
                (None, h2) \<Rightarrow> Inl TypeError
              | (Some middleTruck, h2) \<Rightarrow>
                  (let (dest, h3) = alloc [middleTruck] h2 in
                   case closest (h3 ! source) (truck_x middleTruck, truck_y middleTruck) of
                     None \<Rightarrow> Inl TypeError
                   | Some (secondTruckId, _) \<Rightarrow>
                       (case extract source secondTruckId h3 of
                          (None, h4) \<Rightarrow> Inl NullEntry
                        | (Some secondTruck, h4) \<Rightarrow>
                            Inr (source, dest, h4[dest := (h4 ! dest) @ [secondTruck]])))))"

text \<open>
  \<^verbatim>\<open>planRoute(list)\<close>. The parameter \<^verbatim>\<open>list\<close> is never read: every access goes to the
  global \<^verbatim>\<open>displayedList\<close>. The result is the returned value and the state after the
  call; \<^verbatim>\<open>return;\<close> returns \<^verbatim>\<open>undefined\<close>.
\<close>

definition planRoute :: "jsval \<Rightarrow> 'a state \<Rightarrow> (error + jsval \<times> 'a state) option" where
  "planRoute list s =
     (case displayedList s of
        Undefined \<Rightarrow> Some (Inl TypeError)
      | Array d \<Rightarrow>
          if length (heap s ! d) < 2 then Some (Inr (Undefined, s))
          else (case planRoute_seed d (heap s) of
                  Inl e \<Rightarrow> Some (Inl e)
                | Inr (source, dest, h) \<Rightarrow>
                    (case route_loop source dest h of
                       None \<Rightarrow> None
                     | Some (Inl e) \<Rightarrow> Some (Inl e)
                     | Some (Inr h') \<Rightarrow> Some (Inr (Array dest, s\<lparr>heap := h'\<rparr>)))))"

subsection \<open>\<^verbatim>\<open>showRoute\<close> and the click handler\<close>

text \<open>
  \<^verbatim>\<open>showRoute\<close> walks \<^verbatim>\<open>displayedList\<close> with \<^verbatim>\<open>forEach\<close> and draws a line from the
  previous truck to the current one when \<^verbatim>\<open>lastX\<close> is truthy, that is, when it is set
  and neither zero nor NaN. The drawing itself is left out: the model returns the
  segments in the order they are drawn. \<^verbatim>\<open>displayedList.forEach\<close> throws when
  \<^verbatim>\<open>displayedList\<close> is \<^verbatim>\<open>undefined\<close>.
\<close>

type_synonym segment = "number \<times> number \<times> number \<times> number"

definition showRoute_step ::
  "(number \<times> number) option \<times> segment list \<Rightarrow> 'a truck_scheme \<Rightarrow> (number \<times> number) option \<times> segment list" where
  "showRoute_step acc t =
     (let x = truck_x t; y = truck_y t in
      case fst acc of
        None \<Rightarrow> (Some (x, y), snd acc)
      | Some (lastX, lastY) \<Rightarrow>
          (Some (x, y), if js_truthy lastX then snd acc @ [(lastX, lastY, x, y)] else snd acc))"

definition showRoute :: "'a state \<Rightarrow> error + segment list" where
  "showRoute s =
     (case displayedList s of
        Undefined \<Rightarrow> Inl TypeError
      | Array d \<Rightarrow> Inr (snd (foldl showRoute_step (None, []) (heap s ! d))))"

text \<open>
  The click handler of the submit button: \<^verbatim>\<open>displayedList = planRoute(displayedList);
  showRoute();\<close>. The Enter branch of the keyup handler has the same two statements.
\<close>

definition submit_click :: "'a state \<Rightarrow> (error + 'a state \<times> segment list) option" where
  "submit_click s =
     (case planRoute (displayedList s) s of
        None \<Rightarrow> None
      | Some (Inl e) \<Rightarrow> Some (Inl e)
      | Some (Inr (v, s')) \<Rightarrow>
          (let s'' = s'\<lparr>displayedList := v\<rparr> in
           case showRoute s'' of
             Inl e \<Rightarrow> Some (Inl e)
           | Inr segs \<Rightarrow> Some (Inr (s'', segs))))"

subsection \<open>Nearest point: exact and computed distance\<close>

text \<open>
  A truck has finite coordinates when both are finite doubles. \<open>euclid\<close> is the exact
  straight-line distance, a real number, from a point of the plane to a truck with
  finite coordinates.
\<close>

fun is_fin :: "number \<Rightarrow> bool" where
  "is_fin (Fin a) = True"
| "is_fin _ = False"

fun fin_of :: "number \<Rightarrow> real" where
  "fin_of (Fin a) = a"
| "fin_of _ = 0"

definition finite_truck :: "'a truck_scheme \<Rightarrow> bool" where
  "finite_truck t \<longleftrightarrow> is_fin (truck_x t) \<and> is_fin (truck_y t)"

definition euclid :: "real \<times> real \<Rightarrow> 'a truck_scheme \<Rightarrow> real" where
  "euclid p t = sqrt ((fst p - fin_of (truck_x t))\<^sup>2 + (snd p - fin_of (truck_y t))\<^sup>2)"

text \<open>
  \<open>computed_distance\<close> is the value of the local constant \<^verbatim>\<open>distance\<close> of \<^verbatim>\<open>closest\<close>: the
  distance as the doubles give it, each of the six operations rounded. Position \<open>k\<close> of
  a list holds the nearest truck by computed distance when no truck of the list has a
  smaller computed distance and every truck before position \<open>k\<close> has a greater one, so
  that \<open>k\<close> is the first position of least computed distance.
\<close>

definition computed_distance :: "number \<times> number \<Rightarrow> 'a truck_scheme \<Rightarrow> number" where
  "computed_distance p t =
     js_sqrt (js_add (js_mul (js_sub (fst p) (truck_x t)) (js_sub (fst p) (truck_x t)))
                     (js_mul (js_sub (snd p) (truck_y t)) (js_sub (snd p) (truck_y t))))"

definition nearest_at :: "number \<times> number \<Rightarrow> 'a truck_scheme list \<Rightarrow> nat \<Rightarrow> bool" where
  "nearest_at p ts k \<longleftrightarrow>
     k < length ts \<and>
     (\<forall>j<length ts. \<not> js_lt (computed_distance p (ts ! j)) (computed_distance p (ts ! k))) \<and>
     (\<forall>j<k. js_lt (computed_distance p (ts ! k)) (computed_distance p (ts ! j)))"

subsection \<open>Example trucks\<close>

text \<open>
  Three trucks in a shallow triangle, A at (0,0), B at (10,0) and C at (5,1); three
  more where R at (1,5) is equally far from P at (0,0) and Q at (2,0); and five whose
  distances round: U at (0,0), V at (1, 2^-30), W at (1,0), X at (2, 2^-30) and S at
  (2^-60, 0). All coordinates are doubles.
\<close>

definition truckA :: truck where "truckA = \<lparr>truck_id = 1, truck_x = Fin 0, truck_y = Fin 0\<rparr>"
definition truckB :: truck where "truckB = \<lparr>truck_id = 2, truck_x = Fin 10, truck_y = Fin 0\<rparr>"
definition truckC :: truck where "truckC = \<lparr>truck_id = 3, truck_x = Fin 5, truck_y = Fin 1\<rparr>"
definition truckP :: truck where "truckP = \<lparr>truck_id = 4, truck_x = Fin 0, truck_y = Fin 0\<rparr>"
definition truckQ :: truck where "truckQ = \<lparr>truck_id = 5, truck_x = Fin 2, truck_y = Fin 0\<rparr>"
definition truckR :: truck where "truckR = \<lparr>truck_id = 6, truck_x = Fin 1, truck_y = Fin 5\<rparr>"
definition truckU :: truck where "truckU = \<lparr>truck_id = 1, truck_x = Fin 0, truck_y = Fin 0\<rparr>"
definition truckV :: truck where "truckV = \<lparr>truck_id = 2, truck_x = Fin 1, truck_y = Fin (1 / 2 ^ 30)\<rparr>"
definition truckW :: truck where "truckW = \<lparr>truck_id = 3, truck_x = Fin 1, truck_y = Fin 0\<rparr>"
definition truckX :: truck where "truckX = \<lparr>truck_id = 4, truck_x = Fin 2, truck_y = Fin (1 / 2 ^ 30)\<rparr>"
definition truckS :: truck where "truckS = \<lparr>truck_id = 5, truck_x = Fin (1 / 2 ^ 60), truck_y = Fin 0\<rparr>"

section \<open>Auxiliary facts\<close>

subsection \<open>Rounding\<close>

lemma rhe_of_int: "rhe (of_int z) = z"
  by (simp add: rhe_def)

lemma rhe_close: "\<bar>of_int (rhe q) - q\<bar> \<le> 1 / 2"
proof -
  have "of_int \<lfloor>q\<rfloor> \<le> q" and "q < of_int \<lfloor>q\<rfloor> + 1" by linarith+
  then show ?thesis by (auto simp: rhe_def Let_def)
qed

lemma rhe_nonneg: "0 \<le> q \<Longrightarrow> 0 \<le> rhe q"
  by (auto simp: rhe_def Let_def)

lemma round_double_not_NaN: "round_double x \<noteq> NaN"
  by (simp add: round_double_def Let_def)

lemma round_double_nonneg:
  assumes "0 \<le> x"
  shows "round_double x = PInf \<or> (\<exists>y\<ge>0. round_double x = Fin y)"
proof (cases "x = 0")
  case True
  then show ?thesis by (simp add: round_double_def)
next
  case False
  define u :: real where "u = 2 powr of_int (ulp_exp x)"
  have u: "0 < u" by (simp add: u_def)
  with assms have "0 \<le> x / u" by simp
  then have "0 \<le> rhe (x / u)" by (rule rhe_nonneg)
  with u have y: "0 \<le> of_int (rhe (x / u)) * u" by simp
  then have "\<not> of_int (rhe (x / u)) * u \<le> - (2 ^ 1024)" by simp
  with False y show ?thesis
    by (auto simp: round_double_def Let_def u_def)
qed

lemma ulp_exp_normal:
  assumes "2 powr of_int e \<le> \<bar>x\<bar>" and "\<bar>x\<bar> < 2 powr of_int (e + 1)" and "- 1022 \<le> e"
  shows "ulp_exp x = e - 52"
proof -
  have "0 < (2::real) powr of_int e" by simp
  with assms(1) have "0 < \<bar>x\<bar>" by linarith
  then have "\<lfloor>log 2 \<bar>x\<bar>\<rfloor> = e"
    using assms(1,2) by (simp add: floor_log_eq_powr_iff)
  with assms(3) show ?thesis by (simp add: ulp_exp_def)
qed

lemma round_double_normal:
  assumes "2 powr of_int e \<le> \<bar>x\<bar>" and "\<bar>x\<bar> < 2 powr of_int (e + 1)" and "- 1022 \<le> e"
  shows "round_double x =
     (let u = 2 powr of_int (e - 52); y = of_int (rhe (x / u)) * u in
      if 2 ^ 1024 \<le> y then PInf else if y \<le> - (2 ^ 1024) then NInf else Fin y)"
proof -
  have "0 < (2::real) powr of_int e" by simp
  with assms(1) have "x \<noteq> 0" by auto
  then show ?thesis
    by (simp add: round_double_def ulp_exp_normal[OF assms])
qed

lemma round_double_exact:
  assumes m: "m \<noteq> 0" "\<bar>m\<bar> < 2 ^ 53" and k: "- 1022 \<le> k" "k \<le> 970"
  shows "round_double (of_int m * 2 powr of_int k) = Fin (of_int m * 2 powr of_int k)"
proof -
  define x :: real where "x = of_int m * 2 powr of_int k"
  define e where "e = \<lfloor>log 2 \<bar>x\<bar>\<rfloor>"
  have pk: "0 < (2::real) powr of_int k" by simp
  have ax: "\<bar>x\<bar> = of_int \<bar>m\<bar> * 2 powr of_int k" by (simp add: x_def abs_mult)
  from m(1) have "1 \<le> \<bar>m\<bar>" by simp
  then have "(1::real) \<le> of_int \<bar>m\<bar>" by linarith
  with pk have lo: "2 powr of_int k \<le> \<bar>x\<bar>"
    unfolding ax by (metis mult_le_cancel_right1 not_less_iff_gr_or_eq less_imp_le mult.commute mult_le_cancel_left1)
  have xp: "0 < \<bar>x\<bar>" using lo pk by linarith
  from m(2) have "(of_int \<bar>m\<bar> :: real) < 2 ^ 53" by (metis of_int_less_numeral_power_cancel_iff)
  with pk have "\<bar>x\<bar> < 2 ^ 53 * 2 powr of_int k" unfolding ax by simp
  also have "\<dots> = 2 powr of_int (k + 53)" by (simp add: powr_add)
  finally have hi: "\<bar>x\<bar> < 2 powr of_int (k + 53)" .
  have e1: "2 powr of_int e \<le> \<bar>x\<bar>" and e2: "\<bar>x\<bar> < 2 powr of_int (e + 1)"
    using floor_log_eq_powr_iff[OF xp, of 2 e] by (simp_all add: e_def)
  have "of_int k \<le> log 2 \<bar>x\<bar>" using lo xp by (simp add: le_log_iff)
  then have ke: "k \<le> e" unfolding e_def by (simp add: le_floor_iff)
  have "log 2 \<bar>x\<bar> < of_int (k + 53)" using hi xp by (simp add: log_less_iff)
  then have "e < k + 53" unfolding e_def by (simp add: floor_less_iff)
  then have ek: "e \<le> k + 52" by simp
  from ke k(1) have en: "- 1022 \<le> e" by simp
  define n where "n = nat (k + 52 - e)"
  have split: "(2::real) powr of_int k = 2 ^ n * 2 powr of_int (e - 52)"
  proof -
    have "of_int k = real n + of_int (e - 52)" using ek by (simp add: n_def)
    then have "(2::real) powr of_int k = 2 powr (real n + of_int (e - 52))" by simp
    also have "\<dots> = 2 powr real n * 2 powr of_int (e - 52)" by (rule powr_add)
    also have "(2::real) powr real n = 2 ^ n" by (simp add: powr_realpow)
    finally show ?thesis .
  qed
  have pu: "0 < (2::real) powr of_int (e - 52)" by simp
  have q: "x / 2 powr of_int (e - 52) = of_int (m * 2 ^ n)"
    using pu by (simp add: x_def split)
  have y: "of_int (rhe (x / 2 powr of_int (e - 52))) * 2 powr of_int (e - 52) = x"
    unfolding q rhe_of_int by (simp add: x_def split)
  have "(2::real) powr of_int (k + 53) \<le> 2 powr 1024" using k(2) by (intro powr_mono) simp_all
  with hi have "\<bar>x\<bar> < 2 ^ 1024" by simp
  then have nb: "\<not> 2 ^ 1024 \<le> x" "\<not> x \<le> - (2 ^ 1024)" by linarith+
  have "round_double x = Fin x"
    unfolding round_double_normal[OF e1 e2 en] Let_def y using nb by simp
  then show ?thesis by (simp add: x_def)
qed

lemma round_double_near:
  assumes "1 \<le> x" and "x \<le> 2 ^ 52"
  shows "\<exists>y. round_double x = Fin y \<and> \<bar>y - x\<bar> \<le> 1 / 2"
proof -
  define e where "e = \<lfloor>log 2 \<bar>x\<bar>\<rfloor>"
  from assms have xp: "0 < \<bar>x\<bar>" and ax: "\<bar>x\<bar> = x" by simp_all
  have e1: "2 powr of_int e \<le> \<bar>x\<bar>" and e2: "\<bar>x\<bar> < 2 powr of_int (e + 1)"
    using floor_log_eq_powr_iff[OF xp, of 2 e] by (simp_all add: e_def)
  have "(2::real) powr 0 < 2 powr of_int (e + 1)" using e2 assms(1) by (simp add: ax)
  then have "0 < real_of_int (e + 1)" by (rule powr_less_cancel) simp
  then have e0: "0 \<le> e" by simp
  have "(2::real) powr of_int e \<le> 2 powr 52" using e1 assms(2) by (simp add: ax)
  then have "real_of_int e \<le> 52" by (rule powr_le_cancel_iff[THEN iffD1, rotated]) simp
  then have "e \<le> 52" by simp
  then have "(2::real) powr of_int (e - 52) \<le> 2 powr 0" by (intro powr_mono) simp_all
  then have u1: "(2::real) powr of_int (e - 52) \<le> 1" by simp
  define u :: real where "u = 2 powr of_int (e - 52)"
  have u0: "0 < u" by (simp add: u_def)
  define y where "y = of_int (rhe (x / u)) * u"
  have "y - x = (of_int (rhe (x / u)) - x / u) * u" using u0 by (simp add: y_def field_simps)
  then have "\<bar>y - x\<bar> = \<bar>of_int (rhe (x / u)) - x / u\<bar> * u" using u0 by (simp add: abs_mult)
  also have "\<dots> \<le> (1 / 2) * u" using rhe_close[of "x / u"] u0 by (intro mult_right_mono) simp_all
  also have "\<dots> \<le> 1 / 2" using u1 by (simp add: u_def)
  finally have d: "\<bar>y - x\<bar> \<le> 1 / 2" .
  with assms have "y \<le> 2 ^ 52 + 1 / 2" and "0 \<le> y" by linarith+
  then have nb: "\<not> 2 ^ 1024 \<le> y" "\<not> y \<le> - (2 ^ 1024)" by simp_all
  from e0 have en: "- 1022 \<le> e" by simp
  have "round_double x = Fin y"
    unfolding round_double_normal[OF e1 e2 en] Let_def using nb by (simp add: y_def u_def)
  with d show ?thesis by blast
qed

subsection \<open>Comparison and the computed distance\<close>

lemma js_lt_irrefl: "\<not> js_lt a a"
  by (cases a) simp_all

lemma js_lt_asym: "js_lt a b \<Longrightarrow> \<not> js_lt b a"
  by (cases a; cases b) simp_all

lemma js_lt_le_trans: "js_lt a b \<Longrightarrow> \<not> js_lt c b \<Longrightarrow> c \<noteq> NaN \<Longrightarrow> js_lt a c"
  by (cases a; cases b; cases c) simp_all

text \<open>
  A Number is non-negative or \<^verbatim>\<open>Infinity\<close>; squares, their sums and the square roots of
  these are of this kind, so the computed distance between finite points is not NaN.
\<close>

fun nonneg :: "number \<Rightarrow> bool" where
  "nonneg (Fin a) = (0 \<le> a)"
| "nonneg PInf = True"
| "nonneg _ = False"

lemma nonneg_round_double: "0 \<le> x \<Longrightarrow> nonneg (round_double x)"
  using round_double_nonneg[of x] by auto

lemma nonneg_js_mul_self: "d \<noteq> NaN \<Longrightarrow> nonneg (js_mul d d)"
  by (cases d) (simp_all add: nonneg_round_double)

lemma nonneg_js_add: "nonneg a \<Longrightarrow> nonneg b \<Longrightarrow> nonneg (js_add a b)"
  by (cases a; cases b) (simp_all add: nonneg_round_double)

lemma nonneg_js_sqrt: "nonneg a \<Longrightarrow> nonneg (js_sqrt a)"
  by (cases a) (simp_all add: nonneg_round_double)

lemma js_sub_fin_not_NaN: "is_fin a \<Longrightarrow> is_fin b \<Longrightarrow> js_sub a b \<noteq> NaN"
  by (cases a; cases b) (simp_all add: round_double_not_NaN)

lemma computed_distance_nonneg:
  assumes "is_fin (fst p)" and "is_fin (snd p)" and "finite_truck t"
  shows "nonneg (computed_distance p t)"
  unfolding computed_distance_def
  using assms
  by (intro nonneg_js_sqrt nonneg_js_add nonneg_js_mul_self js_sub_fin_not_NaN)
     (simp_all add: finite_truck_def)

lemma computed_distance_not_NaN:
  assumes "is_fin (fst p)" and "is_fin (snd p)" and "finite_truck t"
  shows "computed_distance p t \<noteq> NaN"
  using computed_distance_nonneg[OF assms] by (cases "computed_distance p t") simp_all

subsection \<open>\<^verbatim>\<open>closest\<close> finds the first truck of least computed distance\<close>

lemma closest_step_distance:
  "closest_step p acc t =
     (case acc of
        None \<Rightarrow> Some (truck_id t, computed_distance p t)
      | Some a \<Rightarrow>
          if js_lt (computed_distance p t) (snd a) then Some (truck_id t, computed_distance p t)
          else acc)"
  by (cases acc) (simp_all add: closest_step_def computed_distance_def Let_def)

lemma nearest_at_unique: "nearest_at p ts k \<Longrightarrow> nearest_at p ts k' \<Longrightarrow> k = k'"
  unfolding nearest_at_def
  by (metis linorder_neqE_nat)

text \<open>Whatever the arithmetic does, the result of the reduce is an entry of the array.\<close>

lemma foldl_closest_step_entry:
  "ts \<noteq> [] \<Longrightarrow>
   \<exists>j<length ts. foldl (closest_step p) None ts
      = Some (truck_id (ts ! j), computed_distance p (ts ! j))"
proof (induction ts rule: rev_induct)
  case Nil
  then show ?case by simp
next
  case (snoc t ts)
  show ?case
  proof (cases "ts = []")
    case True
    then show ?thesis by (simp add: closest_step_distance)
  next
    case False
    with snoc.IH obtain j where jl: "j < length ts"
      and f: "foldl (closest_step p) None ts
          = Some (truck_id (ts ! j), computed_distance p (ts ! j))" by blast
    show ?thesis
    proof (cases "js_lt (computed_distance p t) (computed_distance p (ts ! j))")
      case True
      then have "foldl (closest_step p) None (ts @ [t])
          = Some (truck_id ((ts @ [t]) ! length ts), computed_distance p ((ts @ [t]) ! length ts))"
        using f by (simp add: closest_step_distance)
      then show ?thesis by (intro exI[of _ "length ts"]) simp
    next
      case False
      then have "foldl (closest_step p) None (ts @ [t])
          = Some (truck_id ((ts @ [t]) ! j), computed_distance p ((ts @ [t]) ! j))"
        using f jl by (simp add: closest_step_distance nth_append)
      with jl show ?thesis by (intro exI[of _ j]) simp
    qed
  qed
qed

lemma closest_entry:
  "ts \<noteq> [] \<Longrightarrow>
   \<exists>j<length ts. closest ts p = Some (truck_id (ts ! j), computed_distance p (ts ! j))"
  using foldl_closest_step_entry[of ts p] by (simp add: closest_def)

text \<open>Entries that are not nearer than the accumulator leave it as it is.\<close>

lemma foldl_closest_step_stable:
  "\<forall>t\<in>set ts. \<not> js_lt (computed_distance p t) d \<Longrightarrow>
   foldl (closest_step p) (Some (i, d)) ts = Some (i, d)"
  by (induction ts) (simp_all add: closest_step_distance)

lemma nearest_at_closest:
  assumes "nearest_at p ts k"
  shows "closest ts p = Some (truck_id (ts ! k), computed_distance p (ts ! k))"
proof -
  from assms have kl: "k < length ts"
    and le: "\<forall>j<length ts. \<not> js_lt (computed_distance p (ts ! j)) (computed_distance p (ts ! k))"
    and lt: "\<forall>j<k. js_lt (computed_distance p (ts ! k)) (computed_distance p (ts ! j))"
    by (simp_all add: nearest_at_def)
  have split: "ts = take k ts @ ts ! k # drop (Suc k) ts" using kl by (rule id_take_nth_drop)
  have pre: "foldl (closest_step p) None (take k ts @ [ts ! k])
      = Some (truck_id (ts ! k), computed_distance p (ts ! k))"
  proof (cases "take k ts = []")
    case True
    show ?thesis unfolding True by (simp add: closest_step_distance)
  next
    case False
    from foldl_closest_step_entry[OF False, of p] obtain j where jl: "j < length (take k ts)"
      and f: "foldl (closest_step p) None (take k ts)
          = Some (truck_id (take k ts ! j), computed_distance p (take k ts ! j))" by blast
    from jl have jk: "j < k" by simp
    then have "take k ts ! j = ts ! j" by simp
    moreover from lt jk have "js_lt (computed_distance p (ts ! k)) (computed_distance p (ts ! j))"
      by blast
    ultimately show ?thesis using f by (simp add: closest_step_distance)
  qed
  have suf: "\<forall>t\<in>set (drop (Suc k) ts). \<not> js_lt (computed_distance p t) (computed_distance p (ts ! k))"
  proof
    fix t assume "t \<in> set (drop (Suc k) ts)"
    then have "t \<in> set ts" by (rule in_set_dropD)
    then obtain j where "j < length ts" "ts ! j = t" by (auto simp: in_set_conv_nth)
    with le show "\<not> js_lt (computed_distance p t) (computed_distance p (ts ! k))" by blast
  qed
  have "foldl (closest_step p) None ts
      = foldl (closest_step p) (foldl (closest_step p) None (take k ts @ [ts ! k])) (drop (Suc k) ts)"
    by (subst split) simp
  also have "\<dots> = Some (truck_id (ts ! k), computed_distance p (ts ! k))"
    unfolding pre using suf by (rule foldl_closest_step_stable)
  finally show ?thesis using kl by (auto simp: closest_def)
qed

text \<open>Without NaN among the computed distances a first nearest truck exists.\<close>

lemma nearest_at_exists:
  "ts \<noteq> [] \<Longrightarrow> \<forall>t\<in>set ts. computed_distance p t \<noteq> NaN \<Longrightarrow> \<exists>k. nearest_at p ts k"
proof (induction ts rule: rev_induct)
  case Nil
  then show ?case by simp
next
  case (snoc t ts)
  show ?case
  proof (cases "ts = []")
    case True
    have "nearest_at p [t] 0" by (simp add: nearest_at_def js_lt_irrefl)
    with True show ?thesis by auto
  next
    case False
    with snoc obtain k where k: "nearest_at p ts k" by auto
    from k have kl: "k < length ts"
      and le: "\<forall>j<length ts. \<not> js_lt (computed_distance p (ts ! j)) (computed_distance p (ts ! k))"
      and lt: "\<forall>j<k. js_lt (computed_distance p (ts ! k)) (computed_distance p (ts ! j))"
      by (simp_all add: nearest_at_def)
    show ?thesis
    proof (cases "js_lt (computed_distance p t) (computed_distance p (ts ! k))")
      case True
      have "nearest_at p (ts @ [t]) (length ts)"
        unfolding nearest_at_def
      proof (intro conjI allI impI)
        show "length ts < length (ts @ [t])" by simp
      next
        fix j assume "j < length (ts @ [t])"
        then consider "j < length ts" | "j = length ts" by force
        then show "\<not> js_lt (computed_distance p ((ts @ [t]) ! j))
                        (computed_distance p ((ts @ [t]) ! length ts))"
        proof cases
          case 1
          then have "ts ! j \<in> set (ts @ [t])" by simp
          with snoc.prems(2) have nn: "computed_distance p (ts ! j) \<noteq> NaN" by blast
          from le 1 have "\<not> js_lt (computed_distance p (ts ! j)) (computed_distance p (ts ! k))"
            by blast
          from js_lt_le_trans[OF True this nn]
          have "js_lt (computed_distance p t) (computed_distance p (ts ! j))" .
          then have "\<not> js_lt (computed_distance p (ts ! j)) (computed_distance p t)"
            by (rule js_lt_asym)
          with 1 show ?thesis by (simp add: nth_append)
        next
          case 2
          then show ?thesis by (simp add: js_lt_irrefl)
        qed
      next
        fix j assume j: "j < length ts"
        then have "ts ! j \<in> set (ts @ [t])" by simp
        with snoc.prems(2) have nn: "computed_distance p (ts ! j) \<noteq> NaN" by blast
        from le j have "\<not> js_lt (computed_distance p (ts ! j)) (computed_distance p (ts ! k))"
          by blast
        from js_lt_le_trans[OF True this nn]
        have "js_lt (computed_distance p t) (computed_distance p (ts ! j))" .
        with j show "js_lt (computed_distance p ((ts @ [t]) ! length ts))
                          (computed_distance p ((ts @ [t]) ! j))"
          by (simp add: nth_append)
      qed
      then show ?thesis by blast
    next
      case False
      have "nearest_at p (ts @ [t]) k"
        unfolding nearest_at_def
      proof (intro conjI allI impI)
        show "k < length (ts @ [t])" using kl by simp
      next
        fix j assume "j < length (ts @ [t])"
        then consider "j < length ts" | "j = length ts" by force
        then show "\<not> js_lt (computed_distance p ((ts @ [t]) ! j))
                        (computed_distance p ((ts @ [t]) ! k))"
        proof cases
          case 1
          with le kl show ?thesis by (simp add: nth_append)
        next
          case 2
          with False kl show ?thesis by (simp add: nth_append)
        qed
      next
        fix j assume j: "j < k"
        with lt kl show "js_lt (computed_distance p ((ts @ [t]) ! k))
                               (computed_distance p ((ts @ [t]) ! j))"
          by (simp add: nth_append)
      qed
      then show ?thesis by blast
    qed
  qed
qed

subsection \<open>\<^verbatim>\<open>findIndex\<close>, \<^verbatim>\<open>splice\<close> and \<^verbatim>\<open>extract\<close>\<close>

lemma findIndex_Some_iff:
  "findIndex q vs = Some k \<longleftrightarrow> k < length vs \<and> q (vs ! k) \<and> (\<forall>j<k. \<not> q (vs ! j))"
proof (induction vs arbitrary: k)
  case Nil
  then show ?case by simp
next
  case (Cons v vs)
  show ?case
  proof (cases "q v")
    case True
    then show ?thesis by (cases k) auto
  next
    case False
    show ?thesis
    proof (cases k)
      case 0
      with False show ?thesis by auto
    next
      case (Suc n)
      have "(\<forall>j<Suc n. \<not> q ((v # vs) ! j)) \<longleftrightarrow> (\<forall>j<n. \<not> q (vs ! j))"
        using False by (auto simp: less_Suc_eq_0_disj)
      with False Suc Cons.IH[of n] show ?thesis by auto
    qed
  qed
qed

lemma findIndex_None_iff: "findIndex q vs = None \<longleftrightarrow> (\<forall>v\<in>set vs. \<not> q v)"
  by (induction vs) auto

lemma findIndex_distinct:
  assumes "k < length ts" and "distinct (map truck_id ts)"
  shows "findIndex (\<lambda>truck. truck_id truck = truck_id (ts ! k)) ts = Some k"
proof -
  have "\<forall>j<k. truck_id (ts ! j) \<noteq> truck_id (ts ! k)"
  proof (intro allI impI)
    fix j assume "j < k"
    with assms have "j < length (map truck_id ts)" "k < length (map truck_id ts)" "j \<noteq> k"
      by simp_all
    with nth_eq_iff_index_eq[OF assms(2), of j k]
    have "map truck_id ts ! j \<noteq> map truck_id ts ! k" by blast
    with assms(1) \<open>j < k\<close> show "truck_id (ts ! j) \<noteq> truck_id (ts ! k)" by simp
  qed
  with assms(1) show ?thesis by (simp add: findIndex_Some_iff)
qed

lemma findIndex_id_exists:
  "k < length ts \<Longrightarrow> \<exists>j. findIndex (\<lambda>truck. truck_id truck = truck_id (ts ! k)) ts = Some j"
proof -
  assume "k < length ts"
  then have "ts ! k \<in> set ts" by simp
  then have "findIndex (\<lambda>truck. truck_id truck = truck_id (ts ! k)) ts \<noteq> None"
    unfolding findIndex_None_iff by blast
  then show ?thesis by blast
qed

lemma mset_splice_out: "k < length vs \<Longrightarrow> add_mset (vs ! k) (mset (splice_out k vs)) = mset vs"
proof -
  assume "k < length vs"
  then have "vs = take k vs @ vs ! k # drop (Suc k) vs" by (rule id_take_nth_drop)
  then have "mset vs = mset (take k vs @ vs ! k # drop (Suc k) vs)" by simp
  then show ?thesis by (simp add: splice_out_def)
qed

lemma length_splice_out: "k < length vs \<Longrightarrow> Suc (length (splice_out k vs)) = length vs"
  by (auto simp: splice_out_def)

lemma distinct_map_splice_out:
  assumes "distinct (map f vs)"
  shows "distinct (map f (splice_out k vs))"
proof -
  have "set (take k (map f vs)) \<inter> set (drop (Suc k) (map f vs)) = {}"
    using assms by (intro set_take_disj_set_drop_if_distinct) simp_all
  moreover have "distinct (take k (map f vs))" "distinct (drop (Suc k) (map f vs))"
    using assms by simp_all
  ultimately show ?thesis
    by (simp add: splice_out_def take_map drop_map)
qed

lemma extract_found:
  "findIndex (\<lambda>truck. truck_id truck = i) (h ! a) = Some j \<Longrightarrow>
   extract a i h = (Some (h ! a ! j), h[a := splice_out j (h ! a)])"
  by (simp add: extract_def)

subsection \<open>One step of the loop, and the loop\<close>

lemma list_update_twice:
  "a \<noteq> b \<Longrightarrow> h[a := u, b := v, a := u', b := v'] = h[a := u', b := v']"
  by (metis list_update_overwrite list_update_swap)

lemma case_list_nonempty: "vs \<noteq> [] \<Longrightarrow> (case vs of [] \<Rightarrow> u | _ # _ \<Rightarrow> w) = w"
  by (cases vs) simp_all

lemma shiftClosestTruck_eval:
  assumes ne: "source \<noteq> dest" and sl: "source < length h" and dl: "dest < length h"
    and dne: "h ! dest \<noteq> []"
    and ch: "closest (h ! source) (truck_x (hd (h ! dest)), truck_y (hd (h ! dest)))
               = Some (hi, hdist)"
    and ct: "closest (h ! source) (truck_x (last (h ! dest)), truck_y (last (h ! dest)))
               = Some (ti, tdist)"
    and jh: "findIndex (\<lambda>truck. truck_id truck = hi) (h ! source) = Some jh"
    and jt: "findIndex (\<lambda>truck. truck_id truck = ti) (h ! source) = Some jt"
  shows "shiftClosestTruck source dest h =
     (if js_lt hdist tdist
      then Inr (h[source := splice_out jh (h ! source), dest := (h ! source ! jh) # (h ! dest)])
      else Inr (h[source := splice_out jt (h ! source), dest := (h ! dest) @ [h ! source ! jt]]))"
proof -
  have eh: "extract source hi h = (Some (h ! source ! jh), h[source := splice_out jh (h ! source)])"
    using jh by (rule extract_found)
  have et: "extract source ti h = (Some (h ! source ! jt), h[source := splice_out jt (h ! source)])"
    using jt by (rule extract_found)
  have rd: "\<And>u. h[source := u] ! dest = h ! dest" using ne by simp
  show ?thesis
    unfolding shiftClosestTruck_def Let_def case_list_nonempty[OF dne] ch ct
    by (simp add: eh et rd)
qed

lemma shiftClosestTruck_some:
  assumes ne: "source \<noteq> dest" and sl: "source < length h" and dl: "dest < length h"
    and dne: "h ! dest \<noteq> []" and sne: "h ! source \<noteq> []"
  shows "\<exists>j<length (h ! source).
     shiftClosestTruck source dest h =
       Inr (h[source := splice_out j (h ! source), dest := (h ! source ! j) # (h ! dest)]) \<or>
     shiftClosestTruck source dest h =
       Inr (h[source := splice_out j (h ! source), dest := (h ! dest) @ [h ! source ! j]])"
proof -
  from closest_entry[OF sne] obtain kh where khl: "kh < length (h ! source)"
    and ch: "closest (h ! source) (truck_x (hd (h ! dest)), truck_y (hd (h ! dest)))
      = Some (truck_id (h ! source ! kh),
              computed_distance (truck_x (hd (h ! dest)), truck_y (hd (h ! dest))) (h ! source ! kh))"
    by blast
  from closest_entry[OF sne] obtain kt where ktl: "kt < length (h ! source)"
    and ct: "closest (h ! source) (truck_x (last (h ! dest)), truck_y (last (h ! dest)))
      = Some (truck_id (h ! source ! kt),
              computed_distance (truck_x (last (h ! dest)), truck_y (last (h ! dest))) (h ! source ! kt))"
    by blast
  from khl obtain jh where
    jh: "findIndex (\<lambda>truck. truck_id truck = truck_id (h ! source ! kh)) (h ! source) = Some jh"
    using findIndex_id_exists by blast
  from ktl obtain jt where
    jt: "findIndex (\<lambda>truck. truck_id truck = truck_id (h ! source ! kt)) (h ! source) = Some jt"
    using findIndex_id_exists by blast
  from jh have jhl: "jh < length (h ! source)" by (simp add: findIndex_Some_iff)
  from jt have jtl: "jt < length (h ! source)" by (simp add: findIndex_Some_iff)
  note ev = shiftClosestTruck_eval[OF ne sl dl dne ch ct jh jt]
  show ?thesis
  proof (cases "js_lt
      (computed_distance (truck_x (hd (h ! dest)), truck_y (hd (h ! dest))) (h ! source ! kh))
      (computed_distance (truck_x (last (h ! dest)), truck_y (last (h ! dest))) (h ! source ! kt))")
    case True
    with ev jhl show ?thesis by auto
  next
    case False
    with ev jtl show ?thesis by auto
  qed
qed

text \<open>
  The loop returns whenever pool and route are different arrays and the route is not
  empty: the pool ends empty, the route has grown at its two ends by the trucks of the
  pool, and no other array has changed. The induction is on the size of the pool.
\<close>

lemma route_loop_total:
  assumes ne: "source \<noteq> dest"
  shows "source < length h \<Longrightarrow> dest < length h \<Longrightarrow> h ! dest \<noteq> [] \<Longrightarrow>
     \<exists>pre post. route_loop source dest h = Some (Inr (h[source := [], dest := pre @ h ! dest @ post]))
        \<and> mset (pre @ post) = mset (h ! source)"
proof (induction "length (h ! source)" arbitrary: h)
  case 0
  then have e: "h ! source = []" by simp
  then have "route_loop source dest h = Some (Inr h)"
    by (subst route_loop.simps) simp
  moreover have "h[source := [], dest := [] @ h ! dest @ []] = h"
    using e by (metis append_Nil append_Nil2 list_update_id)
  ultimately show ?case using e
    by (intro exI[of _ "[]"]) simp
next
  case (Suc n)
  then have sne: "h ! source \<noteq> []" by auto
  from shiftClosestTruck_some[OF ne Suc.prems(1) Suc.prems(2) Suc.prems(3) sne]
  obtain j h1 where jl: "j < length (h ! source)"
    and sh: "shiftClosestTruck source dest h = Inr h1"
    and h1: "h1 = h[source := splice_out j (h ! source), dest := (h ! source ! j) # (h ! dest)]
           \<or> h1 = h[source := splice_out j (h ! source), dest := (h ! dest) @ [h ! source ! j]]"
    by blast
  from h1 have len: "length h1 = length h" by auto
  from h1 ne Suc.prems have src1: "h1 ! source = splice_out j (h ! source)" by auto
  from h1 ne Suc.prems have dst1: "h1 ! dest = (h ! source ! j) # (h ! dest)
      \<or> h1 ! dest = (h ! dest) @ [h ! source ! j]" by auto
  then have dne1: "h1 ! dest \<noteq> []" by auto
  from src1 jl Suc.hyps(2) have n: "n = length (h1 ! source)"
    using length_splice_out[of j "h ! source"] by simp
  from Suc.hyps(1)[OF n] Suc.prems len dne1
  obtain pre post where r: "route_loop source dest h1
        = Some (Inr (h1[source := [], dest := pre @ h1 ! dest @ post]))"
    and m: "mset (pre @ post) = mset (h1 ! source)" by auto
  have step: "route_loop source dest h = route_loop source dest h1"
    using sne sh by (subst route_loop.simps) simp
  have upd: "\<And>w. h1[source := [], dest := w] = h[source := [], dest := w]"
    using h1 ne by (auto simp: list_update_twice)
  from m src1 have m': "add_mset (h ! source ! j) (mset (pre @ post)) = mset (h ! source)"
    using mset_splice_out[OF jl] by simp
  from dst1 show ?case
  proof
    assume d: "h1 ! dest = (h ! source ! j) # (h ! dest)"
    have "route_loop source dest h
        = Some (Inr (h[source := [], dest := (pre @ [h ! source ! j]) @ h ! dest @ post]))"
      using step r d upd by simp
    moreover have "mset ((pre @ [h ! source ! j]) @ post) = mset (h ! source)"
      using m' by simp
    ultimately show ?thesis by blast
  next
    assume d: "h1 ! dest = (h ! dest) @ [h ! source ! j]"
    have "route_loop source dest h
        = Some (Inr (h[source := [], dest := pre @ h ! dest @ ([h ! source ! j] @ post)]))"
      using step r d upd by simp
    moreover have "mset (pre @ ([h ! source ! j] @ post)) = mset (h ! source)"
      using m' by simp
    ultimately show ?thesis by blast
  qed
qed

subsection \<open>\<^verbatim>\<open>middlePoint\<close> and the first two trucks\<close>

lemma fold_min_Fin:
  "fold (\<lambda>v acc. if js_lt v acc then v else acc) (map Fin rs) (Fin a) = Fin (fold min rs a)"
  by (induction rs arbitrary: a) (auto simp: min_def)

lemma fold_max_Fin:
  "fold (\<lambda>v acc. if js_lt acc v then v else acc) (map Fin rs) (Fin a) = Fin (fold max rs a)"
  by (induction rs arbitrary: a) (auto simp: max_def)

lemma Math_min_Fin: "rs \<noteq> [] \<Longrightarrow> Math_min (map Fin rs) = Fin (Min (set rs))"
proof (cases rs)
  case Nil
  then show "rs \<noteq> [] \<Longrightarrow> ?thesis" by simp
next
  case (Cons r rs')
  have "NaN \<notin> set (map Fin rs)" by auto
  then have "Math_min (map Fin rs) = Fin (fold min rs' r)"
    unfolding Math_min_def Cons by (simp add: fold_min_Fin del: set_map)
  also have "fold min rs' r = Min (set rs)" unfolding Cons by (rule Min.set_eq_fold[symmetric])
  finally show ?thesis .
qed

lemma Math_max_Fin: "rs \<noteq> [] \<Longrightarrow> Math_max (map Fin rs) = Fin (Max (set rs))"
proof (cases rs)
  case Nil
  then show "rs \<noteq> [] \<Longrightarrow> ?thesis" by simp
next
  case (Cons r rs')
  have "NaN \<notin> set (map Fin rs)" by auto
  then have "Math_max (map Fin rs) = Fin (fold max rs' r)"
    unfolding Math_max_def Cons by (simp add: fold_max_Fin del: set_map)
  also have "fold max rs' r = Max (set rs)" unfolding Cons by (rule Max.set_eq_fold[symmetric])
  finally show ?thesis .
qed

lemma map_Fin_fin_of: "\<forall>v\<in>set vs. is_fin v \<Longrightarrow> map Fin (map fin_of vs) = vs"
proof (induction vs)
  case Nil
  then show ?case by simp
next
  case (Cons v vs)
  then show ?case by (cases v) simp_all
qed

lemma middlePoint_finite:
  assumes ne: "ts \<noteq> []" and fin: "\<forall>t\<in>set ts. finite_truck t"
  shows "middlePoint ts =
     (js_half (js_add (Fin (Min ((\<lambda>t. fin_of (truck_x t)) ` set ts)))
                      (Fin (Max ((\<lambda>t. fin_of (truck_x t)) ` set ts)))),
      js_half (js_add (Fin (Min ((\<lambda>t. fin_of (truck_y t)) ` set ts)))
                      (Fin (Max ((\<lambda>t. fin_of (truck_y t)) ` set ts)))))"
proof -
  have xs: "map truck_x ts = map Fin (map (\<lambda>t. fin_of (truck_x t)) ts)"
    using map_Fin_fin_of[of "map truck_x ts"] fin by (simp add: finite_truck_def comp_def)
  have ys: "map truck_y ts = map Fin (map (\<lambda>t. fin_of (truck_y t)) ts)"
    using map_Fin_fin_of[of "map truck_y ts"] fin by (simp add: finite_truck_def comp_def)
  have nx: "map (\<lambda>t. fin_of (truck_x t)) ts \<noteq> []" and ny: "map (\<lambda>t. fin_of (truck_y t)) ts \<noteq> []"
    using ne by simp_all
  show ?thesis
    unfolding middlePoint_def Let_def xs ys
      Math_min_Fin[OF nx] Math_max_Fin[OF nx] Math_min_Fin[OF ny] Math_max_Fin[OF ny]
    by simp
qed

lemma planRoute_seed_eval:
  assumes dl: "d < length h0"
    and c1: "closest (h0 ! d) (middlePoint (h0 ! d)) = Some (i1, d1)"
    and j1: "findIndex (\<lambda>truck. truck_id truck = i1) (h0 ! d) = Some j1"
    and c2: "closest (splice_out j1 (h0 ! d)) (truck_x (h0 ! d ! j1), truck_y (h0 ! d ! j1))
               = Some (i2, d2)"
    and j2: "findIndex (\<lambda>truck. truck_id truck = i2) (splice_out j1 (h0 ! d)) = Some j2"
  shows "planRoute_seed d h0 =
     Inr (length h0, Suc (length h0),
          h0 @ [splice_out j2 (splice_out j1 (h0 ! d)), [h0 ! d ! j1, splice_out j1 (h0 ! d) ! j2]])"
proof -
  define ts where "ts = h0 ! d"
  define ts1 where "ts1 = splice_out j1 ts"
  define h1 where "h1 = h0 @ [ts]"
  define h3 where "h3 = h0 @ [ts1, [ts ! j1]]"
  obtain x y where mid: "middlePoint ts = (x, y)" by (cases "middlePoint ts")
  have a1: "alloc (h0 ! d) h0 = (length h0, h1)" by (simp add: alloc_def h1_def ts_def)
  have r1: "h1 ! d = ts" using dl by (simp add: h1_def ts_def nth_append)
  have r2: "h1 ! length h0 = ts" by (simp add: h1_def)
  have m: "middlePoint (h1 ! d) = (x, y)" using mid r1 by simp
  have c1': "closest (h1 ! length h0) (x, y) = Some (i1, d1)"
    using c1 mid r2 by (simp add: ts_def)
  have "extract (length h0) i1 h1
      = (Some (h1 ! length h0 ! j1), h1[length h0 := splice_out j1 (h1 ! length h0)])"
    using j1 r2 by (intro extract_found) (simp add: ts_def)
  then have e1: "extract (length h0) i1 h1 = (Some (ts ! j1), h0 @ [ts1])"
    by (simp add: r2 ts1_def) (simp add: h1_def)
  have a2: "alloc [ts ! j1] (h0 @ [ts1]) = (Suc (length h0), h3)"
    by (simp add: alloc_def h3_def)
  have r3: "h3 ! length h0 = ts1" by (simp add: h3_def nth_append)
  have c2': "closest (h3 ! length h0) (truck_x (ts ! j1), truck_y (ts ! j1)) = Some (i2, d2)"
    using c2 r3 by (simp add: ts_def ts1_def)
  have "extract (length h0) i2 h3
      = (Some (h3 ! length h0 ! j2), h3[length h0 := splice_out j2 (h3 ! length h0)])"
    using j2 r3 by (intro extract_found) (simp add: ts_def ts1_def)
  then have e2: "extract (length h0) i2 h3
      = (Some (ts1 ! j2), h0 @ [splice_out j2 ts1, [ts ! j1]])"
    by (simp add: r3) (simp add: h3_def list_update_append)
  have fin: "(h0 @ [splice_out j2 ts1, [ts ! j1]])[Suc (length h0) :=
        (h0 @ [splice_out j2 ts1, [ts ! j1]]) ! Suc (length h0) @ [ts1 ! j2]]
      = h0 @ [splice_out j2 ts1, [ts ! j1, ts1 ! j2]]"
    by (simp add: list_update_append nth_append)
  have "planRoute_seed d h0 =
     Inr (length h0, Suc (length h0), h0 @ [splice_out j2 ts1, [ts ! j1, ts1 ! j2]])"
    unfolding planRoute_seed_def a1
    by (simp add: m c1' e1 a2 c2' e2 fin ts_def[symmetric])
  then show ?thesis by (simp add: ts_def ts1_def)
qed

lemma seed_indices_exist:
  assumes "2 \<le> length ts"
  shows "\<exists>i1 d1 j1 i2 d2 j2.
     closest ts (middlePoint ts) = Some (i1, d1) \<and>
     findIndex (\<lambda>truck. truck_id truck = i1) ts = Some j1 \<and>
     closest (splice_out j1 ts) (truck_x (ts ! j1), truck_y (ts ! j1)) = Some (i2, d2) \<and>
     findIndex (\<lambda>truck. truck_id truck = i2) (splice_out j1 ts) = Some j2"
proof -
  from assms have ne: "ts \<noteq> []" by auto
  from closest_entry[OF ne] obtain k1 where "k1 < length ts"
    and c1: "closest ts (middlePoint ts)
       = Some (truck_id (ts ! k1), computed_distance (middlePoint ts) (ts ! k1))" by blast
  then obtain j1 where j1: "findIndex (\<lambda>truck. truck_id truck = truck_id (ts ! k1)) ts = Some j1"
    using findIndex_id_exists by blast
  then have "j1 < length ts" by (simp add: findIndex_Some_iff)
  with assms have ne1: "splice_out j1 ts \<noteq> []"
    using length_splice_out[of j1 ts] by auto
  from closest_entry[OF ne1] obtain k2 where "k2 < length (splice_out j1 ts)"
    and c2: "closest (splice_out j1 ts) (truck_x (ts ! j1), truck_y (ts ! j1))
       = Some (truck_id (splice_out j1 ts ! k2),
               computed_distance (truck_x (ts ! j1), truck_y (ts ! j1)) (splice_out j1 ts ! k2))"
    by blast
  then obtain j2 where "findIndex (\<lambda>truck. truck_id truck = truck_id (splice_out j1 ts ! k2))
       (splice_out j1 ts) = Some j2"
    using findIndex_id_exists by blast
  with c1 j1 c2 show ?thesis by blast
qed

subsection \<open>\<^verbatim>\<open>planRoute\<close> as a whole\<close>

lemma planRoute_short:
  "displayedList s = Array d \<Longrightarrow> length (heap s ! d) < 2 \<Longrightarrow> planRoute list s = Some (Inr (Undefined, s))"
  by (simp add: planRoute_def)

lemma planRoute_eval:
  assumes dv: "displayedList s = Array d" and dl: "d < length (heap s)"
    and len: "2 \<le> length (heap s ! d)"
    and c1: "closest (heap s ! d) (middlePoint (heap s ! d)) = Some (i1, d1)"
    and j1: "findIndex (\<lambda>truck. truck_id truck = i1) (heap s ! d) = Some j1"
    and c2: "closest (splice_out j1 (heap s ! d))
               (truck_x (heap s ! d ! j1), truck_y (heap s ! d ! j1)) = Some (i2, d2)"
    and j2: "findIndex (\<lambda>truck. truck_id truck = i2) (splice_out j1 (heap s ! d)) = Some j2"
  shows "\<exists>pre post.
     planRoute list s =
       Some (Inr (Array (Suc (length (heap s))),
                  s\<lparr>heap := heap s @ [[], pre @ [heap s ! d ! j1, splice_out j1 (heap s ! d) ! j2] @ post]\<rparr>))
     \<and> mset (pre @ post) = mset (splice_out j2 (splice_out j1 (heap s ! d)))"
proof -
  define ts where "ts = heap s ! d"
  define h where "h = heap s @ [splice_out j2 (splice_out j1 ts), [ts ! j1, splice_out j1 ts ! j2]]"
  have seed: "planRoute_seed d (heap s) = Inr (length (heap s), Suc (length (heap s)), h)"
    using planRoute_seed_eval[OF dl c1 j1 c2 j2] by (simp add: h_def ts_def)
  have rs: "h ! length (heap s) = splice_out j2 (splice_out j1 ts)"
    by (simp add: h_def nth_append)
  have rd: "h ! Suc (length (heap s)) = [ts ! j1, splice_out j1 ts ! j2]"
    by (simp add: h_def nth_append)
  have "\<exists>pre post. route_loop (length (heap s)) (Suc (length (heap s))) h
       = Some (Inr (h[length (heap s) := [],
                      Suc (length (heap s)) := pre @ h ! Suc (length (heap s)) @ post]))
       \<and> mset (pre @ post) = mset (h ! length (heap s))"
    by (rule route_loop_total) (simp_all add: h_def nth_append)
  then obtain pre post where
    loop: "route_loop (length (heap s)) (Suc (length (heap s))) h
       = Some (Inr (h[length (heap s) := [],
                      Suc (length (heap s)) := pre @ [ts ! j1, splice_out j1 ts ! j2] @ post]))"
    and m: "mset (pre @ post) = mset (splice_out j2 (splice_out j1 ts))"
    unfolding rs rd by blast
  have upd: "\<And>w. h[length (heap s) := [], Suc (length (heap s)) := w] = heap s @ [[], w]"
    by (simp add: h_def list_update_append)
  from len have nl: "\<not> length (heap s ! d) < 2" by simp
  have "planRoute list s =
       Some (Inr (Array (Suc (length (heap s))),
                  s\<lparr>heap := heap s @ [[], pre @ [ts ! j1, splice_out j1 ts ! j2] @ post]\<rparr>))"
    unfolding planRoute_def by (simp add: dv nl seed loop upd)
  with m show ?thesis unfolding ts_def by blast
qed

lemma planRoute_general:
  assumes dv: "displayedList s = Array d" and dl: "d < length (heap s)"
    and len: "2 \<le> length (heap s ! d)"
  shows "\<exists>route. planRoute list s =
       Some (Inr (Array (Suc (length (heap s))), s\<lparr>heap := heap s @ [[], route]\<rparr>))
     \<and> mset route = mset (heap s ! d)"
proof -
  from seed_indices_exist[OF len] obtain i1 d1 j1 i2 d2 j2 where
    c1: "closest (heap s ! d) (middlePoint (heap s ! d)) = Some (i1, d1)"
    and j1: "findIndex (\<lambda>truck. truck_id truck = i1) (heap s ! d) = Some j1"
    and c2: "closest (splice_out j1 (heap s ! d))
               (truck_x (heap s ! d ! j1), truck_y (heap s ! d ! j1)) = Some (i2, d2)"
    and j2: "findIndex (\<lambda>truck. truck_id truck = i2) (splice_out j1 (heap s ! d)) = Some j2"
    by blast
  from planRoute_eval[OF dv dl len c1 j1 c2 j2, of list] obtain pre post where
    r: "planRoute list s =
       Some (Inr (Array (Suc (length (heap s))),
                  s\<lparr>heap := heap s @ [[], pre @ [heap s ! d ! j1, splice_out j1 (heap s ! d) ! j2] @ post]\<rparr>))"
    and m: "mset (pre @ post) = mset (splice_out j2 (splice_out j1 (heap s ! d)))"
    by blast
  from j1 have l1: "j1 < length (heap s ! d)" by (simp add: findIndex_Some_iff)
  from j2 have l2: "j2 < length (splice_out j1 (heap s ! d))" by (simp add: findIndex_Some_iff)
  have "mset (pre @ [heap s ! d ! j1, splice_out j1 (heap s ! d) ! j2] @ post)
      = add_mset (heap s ! d ! j1) (add_mset (splice_out j1 (heap s ! d) ! j2) (mset (pre @ post)))"
    by simp
  also have "\<dots> = mset (heap s ! d)"
    unfolding m mset_splice_out[OF l2] mset_splice_out[OF l1] ..
  finally show ?thesis using r by blast
qed

text \<open>The parameter of \<^verbatim>\<open>planRoute\<close> has no influence on the result.\<close>

lemma planRoute_argument_unused: "planRoute list s = planRoute list' s"
  by (simp add: planRoute_def)

subsection \<open>Doubles that the examples meet\<close>

lemma round_double_exact_div:
  assumes "m \<noteq> 0" and "\<bar>m\<bar> < 2 ^ 53" and "n \<le> 1022"
  shows "round_double (of_int m / 2 ^ n) = Fin (of_int m / 2 ^ n)"
proof -
  have "(2::real) powr of_int (- int n) = 1 / 2 ^ n"
    using powr_int[of "2::real" "- int n"] by (cases "n = 0") simp_all
  moreover have "round_double (of_int m * 2 powr of_int (- int n))
      = Fin (of_int m * 2 powr of_int (- int n))"
    using assms by (intro round_double_exact) simp_all
  ultimately show ?thesis by simp
qed

lemma round_double_zero: "round_double 0 = Fin 0"
  by (simp add: round_double_def)

lemmas round_double_values =
  round_double_zero
  round_double_exact_div[of 1 0, simplified]
  round_double_exact_div[of "- 1" 0, simplified]
  round_double_exact_div[of 2 0, simplified]
  round_double_exact_div[of 5 0, simplified]
  round_double_exact_div[of "- 5" 0, simplified]
  round_double_exact_div[of 10 0, simplified]
  round_double_exact_div[of "- 10" 0, simplified]
  round_double_exact_div[of 25 0, simplified]
  round_double_exact_div[of 26 0, simplified]
  round_double_exact_div[of 100 0, simplified]
  round_double_exact_div[of 1 1, simplified]
  round_double_exact_div[of "- 1" 1, simplified]
  round_double_exact_div[of 1 2, simplified]
  round_double_exact_div[of 101 2, simplified]
  round_double_exact_div[of 1 30, simplified]
  round_double_exact_div[of "- 1" 30, simplified]
  round_double_exact_div[of 1 31, simplified]
  round_double_exact_div[of "- 1" 31, simplified]
  round_double_exact_div[of 1 60, simplified]
  round_double_exact_div[of 1 62, simplified]

lemma round_double_one_plus_tiny: "round_double (1 + 1 / 2 ^ 60) = Fin 1"
proof -
  have "round_double (1 + 1 / 2 ^ 60) =
     (let u = 2 powr of_int (0 - 52); y = of_int (rhe ((1 + 1 / 2 ^ 60) / u)) * u in
      if 2 ^ 1024 \<le> y then PInf else if y \<le> - (2 ^ 1024) then NInf else Fin y)"
    by (rule round_double_normal) simp_all
  moreover have "(2::real) powr - 52 = 1 / 2 ^ 52" using powr_int[of "2::real" "- 52"] by simp
  ultimately show ?thesis by (simp add: rhe_def Let_def)
qed

lemma round_double_quarter_plus_tiny: "round_double (1 / 4 + 1 / 2 ^ 62) = Fin (1 / 4)"
proof -
  have p2: "(2::real) powr - 2 = 1 / 4" using powr_int[of "2::real" "- 2"] by simp
  have p1: "(2::real) powr - 1 = 1 / 2" using powr_int[of "2::real" "- 1"] by simp
  have "round_double (1 / 4 + 1 / 2 ^ 62) =
     (let u = 2 powr of_int (- 2 - 52); y = of_int (rhe ((1 / 4 + 1 / 2 ^ 62) / u)) * u in
      if 2 ^ 1024 \<le> y then PInf else if y \<le> - (2 ^ 1024) then NInf else Fin y)"
    by (rule round_double_normal) (simp_all add: p1 p2)
  moreover have "(2::real) powr - 54 = 1 / 2 ^ 54" using powr_int[of "2::real" "- 54"] by simp
  ultimately show ?thesis by (simp add: rhe_def Let_def)
qed

text \<open>
  Two more roundings, for comparison with an engine: the doubles nearest to 0.1 and 0.2
  add up to the double printed as 0.30000000000000004, and twice 2^1023 overflows.
\<close>

lemma round_double_tenth_plus_fifth:
  "round_double (3602879701896397 / 2 ^ 55 + 3602879701896397 / 2 ^ 54)
     = Fin (5404319552844596 / 2 ^ 54)"
proof -
  have p2: "(2::real) powr - 2 = 1 / 4" using powr_int[of "2::real" "- 2"] by simp
  have p1: "(2::real) powr - 1 = 1 / 2" using powr_int[of "2::real" "- 1"] by simp
  have "round_double (3602879701896397 / 2 ^ 55 + 3602879701896397 / 2 ^ 54) =
     (let u = 2 powr of_int (- 2 - 52);
          y = of_int (rhe ((3602879701896397 / 2 ^ 55 + 3602879701896397 / 2 ^ 54) / u)) * u in
      if 2 ^ 1024 \<le> y then PInf else if y \<le> - (2 ^ 1024) then NInf else Fin y)"
    by (rule round_double_normal) (simp_all add: p1 p2)
  moreover have "(2::real) powr - 54 = 1 / 2 ^ 54" using powr_int[of "2::real" "- 54"] by simp
  ultimately show ?thesis by (simp add: rhe_def Let_def)
qed

lemma round_double_overflow: "round_double (2 ^ 1023 + 2 ^ 1023) = PInf"
proof -
  have "round_double (2 ^ 1023 + 2 ^ 1023) =
     (let u = 2 powr of_int (1024 - 52); y = of_int (rhe ((2 ^ 1023 + 2 ^ 1023) / u)) * u in
      if 2 ^ 1024 \<le> y then PInf else if y \<le> - (2 ^ 1024) then NInf else Fin y)"
    by (rule round_double_normal) simp_all
  moreover have "(2::real) powr 972 = 2 ^ 972" by simp
  ultimately show ?thesis by (simp add: rhe_def Let_def)
qed

lemma sqrt_values: "sqrt 25 = 5" "sqrt 100 = 10" "sqrt (1 / 4) = 1 / 2"
  by (simp_all add: real_sqrt_unique real_sqrt_divide)

text \<open>The two irrational square roots of the examples, after rounding.\<close>

lemma round_double_sqrt_26: "\<exists>y. round_double (sqrt 26) = Fin y \<and> 4 < y \<and> y < 10"
proof -
  have lo: "5 \<le> sqrt 26" by (rule real_le_rsqrt) simp
  have hi: "sqrt 26 \<le> 6" by (rule real_le_lsqrt) simp_all
  from lo hi have "1 \<le> sqrt 26" and "sqrt 26 \<le> 2 ^ 52" by simp_all
  from round_double_near[OF this] obtain y where
    r: "round_double (sqrt 26) = Fin y" and d: "\<bar>y - sqrt 26\<bar> \<le> 1 / 2" by blast
  from lo hi d have "4 < y" and "y < 10" by linarith+
  with r show ?thesis by blast
qed

lemma round_double_sqrt_101_4: "\<exists>y. round_double (sqrt (101 / 4)) = Fin y \<and> 4 < y \<and> y < 10"
proof -
  have lo: "5 \<le> sqrt (101 / 4)" by (rule real_le_rsqrt) simp
  have hi: "sqrt (101 / 4) \<le> 6" by (rule real_le_lsqrt) simp_all
  from lo hi have "1 \<le> sqrt (101 / 4)" and "sqrt (101 / 4) \<le> 2 ^ 52" by simp_all
  from round_double_near[OF this] obtain y where
    r: "round_double (sqrt (101 / 4)) = Fin y" and d: "\<bar>y - sqrt (101 / 4)\<bar> \<le> 1 / 2" by blast
  from lo hi d have "4 < y" and "y < 10" by linarith+
  with r show ?thesis by blast
qed

subsection \<open>Runs on the example trucks\<close>

text \<open>
  With A, B, C displayed in this order the centre of the bounding box is (5, 1/2), C is
  nearest to it, A and B are equally far from C and A comes first, and B is nearer to
  the head C than to the tail A: the route is B, C, A. With A, B alone the centre is
  (5, 0), both are equally far from it and the route is A, B.
\<close>

lemma middlePoint_ABC: "middlePoint [truckA, truckB, truckC] = (Fin 5, Fin (1 / 2))"
  by (simp add: middlePoint_def Math_min_def Math_max_def truckA_def truckB_def truckC_def
      round_double_values)

lemma middlePoint_AB: "middlePoint [truckA, truckB] = (Fin 5, Fin 0)"
  by (simp add: middlePoint_def Math_min_def Math_max_def truckA_def truckB_def
      round_double_values)

lemma closest_ABC_centre: "\<exists>dist. closest [truckA, truckB, truckC] (Fin 5, Fin (1 / 2)) = Some (3, dist)"
proof -
  obtain y1 where y1: "round_double (sqrt (101 / 4)) = Fin y1" "4 < y1"
    using round_double_sqrt_101_4 by blast
  then show ?thesis
    by (simp add: closest_def closest_step_def truckA_def truckB_def truckC_def Let_def
        round_double_values sqrt_values)
qed

lemma closest_AB_from_C:
  "\<exists>dist. closest [truckA, truckB] (truck_x truckC, truck_y truckC) = Some (1, dist)"
proof -
  obtain y2 where y2: "round_double (sqrt 26) = Fin y2"
    using round_double_sqrt_26 by blast
  then show ?thesis
    by (simp add: closest_def closest_step_def truckA_def truckB_def truckC_def Let_def
        round_double_values)
qed

lemma closest_B_from_C_and_A:
  "\<exists>y. closest [truckB] (truck_x truckC, truck_y truckC) = Some (2, Fin y) \<and> y < 10 \<and>
       closest [truckB] (truck_x truckA, truck_y truckA) = Some (2, Fin 10)"
proof -
  obtain y2 where y2: "round_double (sqrt 26) = Fin y2" "y2 < 10"
    using round_double_sqrt_26 by blast
  then show ?thesis
    by (simp add: closest_def closest_step_def truckA_def truckB_def truckC_def Let_def
        round_double_values sqrt_values)
qed

lemma closest_AB_centre: "closest [truckA, truckB] (Fin 5, Fin 0) = Some (1, Fin 5)"
  by (simp add: closest_def closest_step_def truckA_def truckB_def Let_def
      round_double_values sqrt_values)

lemma closest_B_from_A:
  "closest [truckB] (truck_x truckA, truck_y truckA) = Some (2, Fin 10)"
  by (simp add: closest_def closest_step_def truckA_def truckB_def Let_def
      round_double_values sqrt_values)

lemma planRoute_run_AB:
  assumes dv: "displayedList s = Array d" and dl: "d < length (heap s)"
    and ts: "heap s ! d = [truckA, truckB]"
  shows "planRoute list s =
     Some (Inr (Array (Suc (length (heap s))), s\<lparr>heap := heap s @ [[], [truckA, truckB]]\<rparr>))"
proof -
  have len: "2 \<le> length (heap s ! d)" by (simp add: ts)
  have c1: "closest (heap s ! d) (middlePoint (heap s ! d)) = Some (1, Fin 5)"
    by (simp add: ts middlePoint_AB closest_AB_centre)
  have j1: "findIndex (\<lambda>truck. truck_id truck = 1) (heap s ! d) = Some 0"
    by (simp add: ts truckA_def)
  have c2: "closest (splice_out 0 (heap s ! d))
      (truck_x (heap s ! d ! 0), truck_y (heap s ! d ! 0)) = Some (2, Fin 10)"
    by (simp add: ts splice_out_def closest_B_from_A)
  have j2: "findIndex (\<lambda>truck. truck_id truck = 2) (splice_out 0 (heap s ! d)) = Some 0"
    by (simp add: ts splice_out_def truckB_def)
  from planRoute_eval[OF dv dl len c1 j1 c2 j2, of list] show ?thesis
    by (simp add: ts splice_out_def)
qed

lemma planRoute_run_ABC:
  assumes dv: "displayedList s = Array d" and dl: "d < length (heap s)"
    and ts: "heap s ! d = [truckA, truckB, truckC]"
  shows "planRoute list s =
     Some (Inr (Array (Suc (length (heap s))),
                s\<lparr>heap := heap s @ [[], [truckB, truckC, truckA]]\<rparr>))"
proof -
  obtain dist1 where c1: "closest (heap s ! d) (middlePoint (heap s ! d)) = Some (3, dist1)"
    using closest_ABC_centre by (auto simp: ts middlePoint_ABC)
  have j1: "findIndex (\<lambda>truck. truck_id truck = 3) (heap s ! d) = Some 2"
    by (simp add: ts truckA_def truckB_def truckC_def)
  have sp: "splice_out 2 (heap s ! d) = [truckA, truckB]" by (simp add: ts splice_out_def)
  have n2: "heap s ! d ! 2 = truckC" by (simp add: ts)
  obtain dist2 where c2: "closest (splice_out 2 (heap s ! d))
      (truck_x (heap s ! d ! 2), truck_y (heap s ! d ! 2)) = Some (1, dist2)"
    using closest_AB_from_C unfolding sp n2 by blast
  have j2: "findIndex (\<lambda>truck. truck_id truck = 1) (splice_out 2 (heap s ! d)) = Some 0"
    by (simp add: sp truckA_def)
  define h where "h = heap s @ [[truckB], [truckC, truckA]]"
  have seed: "planRoute_seed d (heap s) = Inr (length (heap s), Suc (length (heap s)), h)"
    using planRoute_seed_eval[OF dl c1 j1 c2 j2, unfolded sp n2]
    by (simp add: splice_out_def h_def)
  have hs: "h ! length (heap s) = [truckB]" by (simp add: h_def nth_append)
  have hd: "h ! Suc (length (heap s)) = [truckC, truckA]" by (simp add: h_def nth_append)
  obtain y where ch: "closest [truckB] (truck_x truckC, truck_y truckC) = Some (2, Fin y)"
    and y: "y < 10"
    and ct: "closest [truckB] (truck_x truckA, truck_y truckA) = Some (2, Fin 10)"
    using closest_B_from_C_and_A by blast
  have ne: "length (heap s) \<noteq> Suc (length (heap s))" by simp
  have sl: "length (heap s) < length h" and dl': "Suc (length (heap s)) < length h"
    by (simp_all add: h_def)
  have dne: "h ! Suc (length (heap s)) \<noteq> []" by (simp add: hd)
  have ch': "closest (h ! length (heap s))
      (truck_x (hd (h ! Suc (length (heap s)))), truck_y (hd (h ! Suc (length (heap s)))))
      = Some (2, Fin y)" by (simp add: hs hd ch)
  have ct': "closest (h ! length (heap s))
      (truck_x (last (h ! Suc (length (heap s)))), truck_y (last (h ! Suc (length (heap s)))))
      = Some (2, Fin 10)" by (simp add: hs hd ct)
  have jb: "findIndex (\<lambda>truck. truck_id truck = 2) (h ! length (heap s)) = Some 0"
    by (simp add: hs truckB_def)
  have "shiftClosestTruck (length (heap s)) (Suc (length (heap s))) h =
     (if js_lt (Fin y) (Fin 10)
      then Inr (h[length (heap s) := splice_out 0 (h ! length (heap s)),
                  Suc (length (heap s)) := (h ! length (heap s) ! 0) # (h ! Suc (length (heap s)))])
      else Inr (h[length (heap s) := splice_out 0 (h ! length (heap s)),
                  Suc (length (heap s)) := (h ! Suc (length (heap s))) @ [h ! length (heap s) ! 0]]))"
    by (rule shiftClosestTruck_eval[OF ne sl dl' dne ch' ct' jb jb])
  then have shift: "shiftClosestTruck (length (heap s)) (Suc (length (heap s))) h
      = Inr (heap s @ [[], [truckB, truckC, truckA]])"
    using y by (simp add: hs hd splice_out_def) (simp add: h_def list_update_append)
  have l1: "route_loop (length (heap s)) (Suc (length (heap s))) h
      = route_loop (length (heap s)) (Suc (length (heap s))) (heap s @ [[], [truckB, truckC, truckA]])"
    by (subst route_loop.simps) (simp add: hs shift)
  have l2: "route_loop (length (heap s)) (Suc (length (heap s))) (heap s @ [[], [truckB, truckC, truckA]])
      = Some (Inr (heap s @ [[], [truckB, truckC, truckA]]))"
    by (subst route_loop.simps) (simp add: nth_append)
  show ?thesis
    unfolding planRoute_def by (simp add: dv ts seed l1 l2)
qed

subsection \<open>Distances that round\<close>

text \<open>The coordinates of the example trucks are doubles.\<close>

lemma example_coordinates_representable:
  "representable 0" "representable 1" "representable 2" "representable 5" "representable 10"
  "representable (1 / 2 ^ 30)" "representable (1 / 2 ^ 60)"
  by (simp_all add: representable_def round_double_values)

lemmas round_double_tiny =
  round_double_one_plus_tiny[simplified]
  round_double_quarter_plus_tiny[simplified]

lemma truck_ids:
  "truck_id truckU = 1" "truck_id truckV = 2" "truck_id truckW = 3" "truck_id truckX = 4"
  "truck_id truckS = 5"
  by (simp_all add: truckU_def truckV_def truckW_def truckX_def truckS_def)

lemma computed_distance_origin_V: "computed_distance (Fin 0, Fin 0) truckV = Fin 1"
  by (simp add: computed_distance_def truckV_def round_double_values round_double_tiny)

lemma computed_distance_origin_W: "computed_distance (Fin 0, Fin 0) truckW = Fin 1"
  by (simp add: computed_distance_def truckW_def round_double_values)

lemma computed_distance_X_W:
  "computed_distance (truck_x truckX, truck_y truckX) truckW = Fin 1"
  by (simp add: computed_distance_def truckW_def truckX_def round_double_values round_double_tiny)

lemma euclid_W_less_V: "euclid (0, 0) truckW < euclid (0, 0) truckV"
proof -
  have "1 < sqrt (1 + (1 / 2 ^ 30)\<^sup>2)" by (rule real_less_rsqrt) simp
  then show ?thesis by (simp add: euclid_def truckV_def truckW_def)
qed

lemma closest_VW_origin: "closest [truckV, truckW] (Fin 0, Fin 0) = Some (2, Fin 1)"
proof -
  have "closest [truckV, truckW] (Fin 0, Fin 0)
      = closest_step (Fin 0, Fin 0) (closest_step (Fin 0, Fin 0) None truckV) truckW"
    by (simp add: closest_def)
  then show ?thesis
    by (simp add: closest_step_distance computed_distance_origin_V computed_distance_origin_W
        truck_ids)
qed

lemma closest_W_single: "closest [truckW] p = Some (3, computed_distance p truckW)"
  by (simp add: closest_def closest_step_distance truck_ids)

lemma middlePoint_UVW: "middlePoint [truckU, truckV, truckW] = (Fin (1 / 2), Fin (1 / 2 ^ 31))"
  by (simp add: middlePoint_def Math_min_def Math_max_def truckU_def truckV_def truckW_def
      round_double_values)

lemma computed_distance_centre_UVW:
  "computed_distance (middlePoint [truckU, truckV, truckW]) truckU = Fin (1 / 2)"
  "computed_distance (middlePoint [truckU, truckV, truckW]) truckV = Fin (1 / 2)"
  "computed_distance (middlePoint [truckU, truckV, truckW]) truckW = Fin (1 / 2)"
  unfolding middlePoint_UVW
  by (simp_all add: computed_distance_def truckU_def truckV_def truckW_def
      round_double_values round_double_tiny sqrt_values)

lemma closest_UVW_centre:
  "closest [truckU, truckV, truckW] (middlePoint [truckU, truckV, truckW]) = Some (1, Fin (1 / 2))"
proof -
  have "closest [truckU, truckV, truckW] (middlePoint [truckU, truckV, truckW])
      = closest_step (middlePoint [truckU, truckV, truckW])
          (closest_step (middlePoint [truckU, truckV, truckW])
             (closest_step (middlePoint [truckU, truckV, truckW]) None truckU) truckV) truckW"
    by (simp add: closest_def)
  then show ?thesis
    by (simp add: closest_step_distance computed_distance_centre_UVW truck_ids)
qed

lemma closest_VW_from_U:
  "closest [truckV, truckW] (truck_x truckU, truck_y truckU) = Some (2, Fin 1)"
proof -
  have "(truck_x truckU, truck_y truckU) = (Fin 0, Fin 0)" by (simp add: truckU_def)
  then show ?thesis by (simp add: closest_VW_origin)
qed

section \<open>Properties\<close>

text \<open>
  In the statements below a state \<open>s\<close> is well formed when \<^verbatim>\<open>displayedList\<close> holds the
  address \<open>d\<close> of an array of the heap: \<open>displayedList s = Array d\<close> and
  \<open>d < length (heap s)\<close>.
\<close>

text \<open>
  C1. The array returned by \<^verbatim>\<open>planRoute\<close> is not always a permutation of the array
  passed. Array 0 holds A, B and is the displayed list; array 1 holds A, B, C and is the
  argument. The call returns the route A, B: truck C of the argument is missing and the
  length is 2, not 3.
\<close>

theorem planRoute_result_not_permutation_of_argument:
  "planRoute (Array 1)
      \<lparr>displayedList = Array 0, heap = [[truckA, truckB], [truckA, truckB, truckC]]\<rparr>
     = Some (Inr (Array 3,
          \<lparr>displayedList = Array 0,
            heap = [[truckA, truckB], [truckA, truckB, truckC], [], [truckA, truckB]]\<rparr>)) \<and>
   mset [truckA, truckB] \<noteq> mset [truckA, truckB, truckC] \<and>
   truck_id truckC \<notin> set (map truck_id [truckA, truckB]) \<and>
   length [truckA, truckB] \<noteq> length [truckA, truckB, truckC]"
proof -
  let ?s = "\<lparr>displayedList = Array 0, heap = [[truckA, truckB], [truckA, truckB, truckC]]\<rparr>"
  have "planRoute (Array 1) ?s =
     Some (Inr (Array (Suc (length (heap ?s))), ?s\<lparr>heap := heap ?s @ [[], [truckA, truckB]]\<rparr>))"
    by (rule planRoute_run_AB[where d = 0]) simp_all
  moreover have "size (mset [truckA, truckB]) \<noteq> size (mset [truckA, truckB, truckC])" by simp
  then have "mset [truckA, truckB] \<noteq> mset [truckA, truckB, truckC]" by metis
  ultimately show ?thesis
    by (simp add: numeral_3_eq_3 truckA_def truckB_def truckC_def)
qed

text \<open>
  When the array passed is the displayed list itself, as in both handlers, the result
  is a permutation of it.
\<close>

lemma planRoute_permutes_displayedList:
  assumes "displayedList s = Array d" and "d < length (heap s)"
    and "2 \<le> length (heap s ! d)" and "distinct (map truck_id (heap s ! d))"
  shows "\<exists>dest s'. planRoute list s = Some (Inr (Array dest, s')) \<and>
     dest < length (heap s') \<and>
     mset (heap s' ! dest) = mset (heap s ! d) \<and>
     distinct (map truck_id (heap s' ! dest)) \<and>
     set (map truck_id (heap s' ! dest)) = set (map truck_id (heap s ! d)) \<and>
     length (heap s' ! dest) = length (heap s ! d)"
proof -
  from planRoute_general[OF assms(1-3), of list] obtain route where
    r: "planRoute list s =
       Some (Inr (Array (Suc (length (heap s))), s\<lparr>heap := heap s @ [[], route]\<rparr>))"
    and m: "mset route = mset (heap s ! d)" by blast
  let ?s' = "s\<lparr>heap := heap s @ [[], route]\<rparr>"
  have rd: "heap ?s' ! Suc (length (heap s)) = route" by (simp add: nth_append)
  have mm: "mset (map truck_id route) = mset (map truck_id (heap s ! d))" using m by simp
  have "distinct (map truck_id route)"
    using mm assms(4) by (metis mset_eq_imp_distinct_iff)
  moreover have "set (map truck_id route) = set (map truck_id (heap s ! d))"
    using mm by (rule mset_eq_setD)
  moreover have "length route = length (heap s ! d)"
    using m by (rule mset_eq_length)
  moreover have "Suc (length (heap s)) < length (heap ?s')" by simp
  ultimately have "planRoute list s = Some (Inr (Array (Suc (length (heap s))), ?s')) \<and>
     Suc (length (heap s)) < length (heap ?s') \<and>
     mset (heap ?s' ! Suc (length (heap s))) = mset (heap s ! d) \<and>
     distinct (map truck_id (heap ?s' ! Suc (length (heap s)))) \<and>
     set (map truck_id (heap ?s' ! Suc (length (heap s)))) = set (map truck_id (heap s ! d)) \<and>
     length (heap ?s' ! Suc (length (heap s))) = length (heap s ! d)"
    using r m unfolding rd by simp
  then show ?thesis by (intro exI)
qed

text \<open>
  C2. On a displayed list of no truck or of one truck \<^verbatim>\<open>planRoute\<close> returns
  \<^verbatim>\<open>undefined\<close>, neither an empty route nor a route of one truck. The click handler
  stores that value in \<^verbatim>\<open>displayedList\<close>, and \<^verbatim>\<open>showRoute\<close> throws on it.
\<close>

theorem planRoute_short_input_undefined:
  "planRoute (Array 0) \<lparr>displayedList = Array 0, heap = [[] :: truck list]\<rparr>
     = Some (Inr (Undefined, \<lparr>displayedList = Array 0, heap = [[]]\<rparr>)) \<and>
   planRoute (Array 0) \<lparr>displayedList = Array 0, heap = [[truckA]]\<rparr>
     = Some (Inr (Undefined, \<lparr>displayedList = Array 0, heap = [[truckA]]\<rparr>)) \<and>
   submit_click \<lparr>displayedList = Array 0, heap = [[] :: truck list]\<rparr> = Some (Inl TypeError) \<and>
   submit_click \<lparr>displayedList = Array 0, heap = [[truckA]]\<rparr> = Some (Inl TypeError)"
  by (simp add: planRoute_def submit_click_def showRoute_def)

text \<open>
  C3. The result of \<^verbatim>\<open>planRoute\<close> is decided by the global \<^verbatim>\<open>displayedList\<close> and not by
  the array passed. Array 0 holds A, B and array 1 holds A, B, C. The call
  \<^verbatim>\<open>planRoute\<close> on array 1 returns the route A, B while \<^verbatim>\<open>displayedList\<close> is array 0,
  and the route B, C, A while it is array 1: the argument and the heap are the same in
  both calls.
\<close>

theorem planRoute_reads_global_not_argument:
  "planRoute (Array 1)
      \<lparr>displayedList = Array 0, heap = [[truckA, truckB], [truckA, truckB, truckC]]\<rparr>
     = Some (Inr (Array 3,
          \<lparr>displayedList = Array 0,
            heap = [[truckA, truckB], [truckA, truckB, truckC], [], [truckA, truckB]]\<rparr>)) \<and>
   planRoute (Array 1)
      \<lparr>displayedList = Array 1, heap = [[truckA, truckB], [truckA, truckB, truckC]]\<rparr>
     = Some (Inr (Array 3,
          \<lparr>displayedList = Array 1,
            heap = [[truckA, truckB], [truckA, truckB, truckC], [], [truckB, truckC, truckA]]\<rparr>))"
proof (intro conjI)
  let ?s = "\<lparr>displayedList = Array 0, heap = [[truckA, truckB], [truckA, truckB, truckC]]\<rparr>"
  have "planRoute (Array 1) ?s =
     Some (Inr (Array (Suc (length (heap ?s))), ?s\<lparr>heap := heap ?s @ [[], [truckA, truckB]]\<rparr>))"
    by (rule planRoute_run_AB[where d = 0]) simp_all
  then show "planRoute (Array 1) ?s
     = Some (Inr (Array 3,
          \<lparr>displayedList = Array 0,
            heap = [[truckA, truckB], [truckA, truckB, truckC], [], [truckA, truckB]]\<rparr>))"
    by (simp add: numeral_3_eq_3)
next
  let ?s = "\<lparr>displayedList = Array 1, heap = [[truckA, truckB], [truckA, truckB, truckC]]\<rparr>"
  have "planRoute (Array 1) ?s =
     Some (Inr (Array (Suc (length (heap ?s))),
                ?s\<lparr>heap := heap ?s @ [[], [truckB, truckC, truckA]]\<rparr>))"
    by (rule planRoute_run_ABC[where d = 1]) simp_all
  then show "planRoute (Array 1) ?s
     = Some (Inr (Array 3,
          \<lparr>displayedList = Array 1,
            heap = [[truckA, truckB], [truckA, truckB, truckC], [], [truckB, truckC, truckA]]\<rparr>))"
    by (simp add: numeral_3_eq_3)
qed

text \<open>
  C4. \<^verbatim>\<open>planRoute\<close> returns without an exception and leaves every array that existed
  before the call as it was, with the same trucks in the same order: the array of
  \<^verbatim>\<open>displayedList\<close>, and the array passed as \<^verbatim>\<open>list\<close>, whichever it is. The variable
  \<^verbatim>\<open>displayedList\<close> is not assigned. All removals happen in arrays allocated by the
  call. Trucks are values of the model and no function writes a field of a truck.
\<close>

theorem planRoute_frame:
  assumes "displayedList s = Array d" and "d < length (heap s)"
  shows "\<exists>v s'. planRoute list s = Some (Inr (v, s')) \<and>
     displayedList s' = displayedList s \<and>
     take (length (heap s)) (heap s') = heap s"
proof (cases "length (heap s ! d) < 2")
  case True
  with assms(1) have "planRoute list s = Some (Inr (Undefined, s))" by (simp add: planRoute_short)
  then show ?thesis by simp
next
  case False
  then have "2 \<le> length (heap s ! d)" by simp
  from planRoute_general[OF assms this, of list] obtain route where
    "planRoute list s =
       Some (Inr (Array (Suc (length (heap s))), s\<lparr>heap := heap s @ [[], route]\<rparr>))" by blast
  then show ?thesis by simp
qed

theorem planRoute_frame_witness:
  "displayedList \<lparr>displayedList = Array 0, heap = [[truckA, truckB, truckC]]\<rparr> = Array 0 \<and>
   0 < length (heap \<lparr>displayedList = Array 0, heap = [[truckA, truckB, truckC]]\<rparr>) \<and>
   (\<exists>v s'. planRoute (Array 0) \<lparr>displayedList = Array 0, heap = [[truckA, truckB, truckC]]\<rparr>
        = Some (Inr (v, s')) \<and>
      displayedList s' = Array 0 \<and> take 1 (heap s') = [[truckA, truckB, truckC]])"
proof -
  let ?s = "\<lparr>displayedList = Array 0, heap = [[truckA, truckB, truckC]]\<rparr>"
  have a1: "displayedList ?s = Array 0" by simp
  have a2: "0 < length (heap ?s)" by simp
  from planRoute_frame[OF a1 a2, of "Array 0"] a1 a2 show ?thesis by simp
qed

text \<open>
  C5. On a non-empty array of trucks with finite coordinates and a finite target,
  \<^verbatim>\<open>closest\<close> returns the id of the truck at some position \<open>k\<close> and its computed
  distance to the target, the distance as the doubles give it; no truck of the array has
  a smaller computed distance, and every truck before position \<open>k\<close> has a greater one,
  so among trucks of the same least computed distance the first one is returned.
\<close>

theorem closest_least_computed_distance:
  assumes "trucks \<noteq> []" and "\<forall>t\<in>set trucks. finite_truck t"
  shows "\<exists>k<length trucks.
     closest trucks (Fin x, Fin y) =
       Some (truck_id (trucks ! k), computed_distance (Fin x, Fin y) (trucks ! k)) \<and>
     (\<forall>j<length trucks.
        \<not> js_lt (computed_distance (Fin x, Fin y) (trucks ! j))
                (computed_distance (Fin x, Fin y) (trucks ! k))) \<and>
     (\<forall>j<k.
        js_lt (computed_distance (Fin x, Fin y) (trucks ! k))
              (computed_distance (Fin x, Fin y) (trucks ! j)))"
proof -
  have "\<forall>t\<in>set trucks. computed_distance (Fin x, Fin y) t \<noteq> NaN"
  proof
    fix t assume "t \<in> set trucks"
    with assms(2) have "finite_truck t" by blast
    then show "computed_distance (Fin x, Fin y) t \<noteq> NaN"
      by (intro computed_distance_not_NaN) simp_all
  qed
  from nearest_at_exists[OF assms(1) this] obtain k where k: "nearest_at (Fin x, Fin y) trucks k"
    by blast
  from nearest_at_closest[OF k] k show ?thesis
    unfolding nearest_at_def by blast
qed

theorem closest_least_computed_distance_witness:
  "[truckV, truckW] \<noteq> [] \<and> finite_truck truckV \<and> finite_truck truckW \<and>
   closest [truckV, truckW] (Fin 0, Fin 0) = Some (2, Fin 1) \<and>
   computed_distance (Fin 0, Fin 0) truckV = Fin 1 \<and>
   computed_distance (Fin 0, Fin 0) truckW = Fin 1"
proof -
  have ne: "[truckV, truckW] \<noteq> []" by simp
  have fv: "finite_truck truckV" and fw: "finite_truck truckW"
    by (simp_all add: finite_truck_def truckV_def truckW_def)
  then have fin: "\<forall>t\<in>set [truckV, truckW]. finite_truck t" by simp
  from closest_least_computed_distance[OF ne fin, of 0 0] obtain k where
    k: "k < length [truckV, truckW]"
    and c: "closest [truckV, truckW] (Fin 0, Fin 0) =
       Some (truck_id ([truckV, truckW] ! k), computed_distance (Fin 0, Fin 0) ([truckV, truckW] ! k))"
    and f: "\<forall>j<k. js_lt (computed_distance (Fin 0, Fin 0) ([truckV, truckW] ! k))
              (computed_distance (Fin 0, Fin 0) ([truckV, truckW] ! j))"
    by blast
  from k have "k = 0 \<or> k = 1" by auto
  then have "k = 0"
  proof
    assume "k = 1"
    with f have "js_lt (computed_distance (Fin 0, Fin 0) truckW)
        (computed_distance (Fin 0, Fin 0) truckV)" by simp
    then show ?thesis
      by (simp add: computed_distance_origin_V computed_distance_origin_W)
  qed
  with c have "closest [truckV, truckW] (Fin 0, Fin 0) = Some (2, Fin 1)"
    by (simp add: computed_distance_origin_V truck_ids)
  with ne fv fw show ?thesis
    by (simp add: computed_distance_origin_V computed_distance_origin_W)
qed

text \<open>
  The truck of least computed distance need not be the truck of least Euclidean
  distance. From the origin, V at (1, 2^-30) and W at (1, 0) both have the computed
  distance 1, because 1 + 2^-60 rounds to 1; \<^verbatim>\<open>closest\<close> returns V, the first of the
  two, with the distance 1, although W is strictly nearer and the Euclidean distance of
  V is not 1.
\<close>

theorem closest_not_euclid_nearest:
  "closest [truckV, truckW] (Fin 0, Fin 0) = Some (truck_id truckV, Fin 1) \<and>
   euclid (0, 0) truckW < euclid (0, 0) truckV \<and>
   euclid (0, 0) truckV \<noteq> 1"
proof -
  have "euclid (0, 0) truckW = 1" by (simp add: euclid_def truckW_def)
  with euclid_W_less_V have "euclid (0, 0) truckV \<noteq> 1" by simp
  with euclid_W_less_V show ?thesis by (simp add: closest_VW_origin truck_ids)
qed

text \<open>
  C6. One call of \<^verbatim>\<open>shiftClosestTruck\<close> on a pool with distinct ids and a non-empty
  route, two different arrays: let position \<open>kh\<close> of the pool hold the truck nearest to
  the head of the route by computed distance and position \<open>kt\<close> the truck nearest to the
  tail. If the first computed distance is smaller than the second, the truck at \<open>kh\<close>
  leaves the pool and is put in front of the route; otherwise, equal computed distances
  included, the truck at \<open>kt\<close> leaves the pool and is put at the end of the route. No
  other array changes.
\<close>

theorem shiftClosestTruck_nearer_end:
  assumes "source \<noteq> dest" and "source < length h" and "dest < length h"
    and "h ! dest \<noteq> []"
    and "distinct (map truck_id (h ! source))"
    and "nearest_at (truck_x (hd (h ! dest)), truck_y (hd (h ! dest))) (h ! source) kh"
    and "nearest_at (truck_x (last (h ! dest)), truck_y (last (h ! dest))) (h ! source) kt"
  shows "shiftClosestTruck source dest h =
     (if js_lt (computed_distance (truck_x (hd (h ! dest)), truck_y (hd (h ! dest))) (h ! source ! kh))
               (computed_distance (truck_x (last (h ! dest)), truck_y (last (h ! dest))) (h ! source ! kt))
      then Inr (h[source := splice_out kh (h ! source), dest := (h ! source ! kh) # (h ! dest)])
      else Inr (h[source := splice_out kt (h ! source), dest := (h ! dest) @ [h ! source ! kt]]))"
proof -
  from assms(6) have "kh < length (h ! source)" by (simp add: nearest_at_def)
  then have jh: "findIndex (\<lambda>truck. truck_id truck = truck_id (h ! source ! kh)) (h ! source) = Some kh"
    using assms(5) by (rule findIndex_distinct)
  from assms(7) have "kt < length (h ! source)" by (simp add: nearest_at_def)
  then have jt: "findIndex (\<lambda>truck. truck_id truck = truck_id (h ! source ! kt)) (h ! source) = Some kt"
    using assms(5) by (rule findIndex_distinct)
  show ?thesis
    by (rule shiftClosestTruck_eval[OF assms(1-4) nearest_at_closest[OF assms(6)]
          nearest_at_closest[OF assms(7)] jh jt])
qed

theorem shiftClosestTruck_nearer_end_witness:
  "(0::nat) \<noteq> 1 \<and> 0 < length [[truckR], [truckP, truckQ]] \<and> 1 < length [[truckR], [truckP, truckQ]] \<and>
   [[truckR], [truckP, truckQ]] ! 1 \<noteq> [] \<and>
   distinct (map truck_id ([[truckR], [truckP, truckQ]] ! 0)) \<and>
   nearest_at (truck_x truckP, truck_y truckP) [truckR] 0 \<and>
   nearest_at (truck_x truckQ, truck_y truckQ) [truckR] 0 \<and>
   computed_distance (truck_x truckP, truck_y truckP) truckR
     = computed_distance (truck_x truckQ, truck_y truckQ) truckR \<and>
   shiftClosestTruck 0 1 [[truckR], [truckP, truckQ]] = Inr [[], [truckP, truckQ, truckR]]"
proof -
  let ?h = "[[truckR], [truckP, truckQ]]"
  have a1: "(0::nat) \<noteq> 1" by simp
  have a2: "0 < length ?h" by simp
  have a3: "1 < length ?h" by simp
  have a4: "?h ! 1 \<noteq> []" by simp
  have a5: "distinct (map truck_id (?h ! 0))" by simp
  have a6: "nearest_at (truck_x (hd (?h ! 1)), truck_y (hd (?h ! 1))) (?h ! 0) 0"
    by (simp add: nearest_at_def js_lt_irrefl)
  have a7: "nearest_at (truck_x (last (?h ! 1)), truck_y (last (?h ! 1))) (?h ! 0) 0"
    by (simp add: nearest_at_def js_lt_irrefl)
  have tie: "computed_distance (truck_x truckP, truck_y truckP) truckR
      = computed_distance (truck_x truckQ, truck_y truckQ) truckR"
    by (simp add: computed_distance_def truckP_def truckQ_def truckR_def round_double_values)
  from shiftClosestTruck_nearer_end[OF a1 a2 a3 a4 a5 a6 a7] tie
  have "shiftClosestTruck 0 1 ?h = Inr [[], [truckP, truckQ, truckR]]"
    by (simp add: splice_out_def js_lt_irrefl)
  with a1 a2 a3 a4 a5 a6 a7 tie show ?thesis by simp
qed

text \<open>
  The branch is decided by the computed distances, not by the Euclidean ones. The route
  is U at (0,0), X at (2, 2^-30) and the pool holds W at (1,0). W is strictly nearer to
  the head U than to the tail X, but both computed distances are 1 and W is put at the
  end of the route.
\<close>

theorem shiftClosestTruck_tie_by_rounding:
  "shiftClosestTruck 0 1 [[truckW], [truckU, truckX]] = Inr [[], [truckU, truckX, truckW]] \<and>
   euclid (fin_of (truck_x truckU), fin_of (truck_y truckU)) truckW
     < euclid (fin_of (truck_x truckX), fin_of (truck_y truckX)) truckW"
proof -
  let ?h = "[[truckW], [truckU, truckX]]"
  have a1: "(0::nat) \<noteq> 1" by simp
  have a2: "0 < length ?h" and a3: "1 < length ?h" by simp_all
  have a4: "?h ! 1 \<noteq> []" by simp
  have ch: "closest (?h ! 0) (truck_x (hd (?h ! 1)), truck_y (hd (?h ! 1))) = Some (3, Fin 1)"
  proof -
    have "(truck_x truckU, truck_y truckU) = (Fin 0, Fin 0)" by (simp add: truckU_def)
    then show ?thesis by (simp add: closest_W_single computed_distance_origin_W)
  qed
  have ct: "closest (?h ! 0) (truck_x (last (?h ! 1)), truck_y (last (?h ! 1))) = Some (3, Fin 1)"
    by (simp add: closest_W_single computed_distance_X_W)
  have j: "findIndex (\<lambda>truck. truck_id truck = 3) (?h ! 0) = Some 0"
    by (simp add: truck_ids)
  from shiftClosestTruck_eval[OF a1 a2 a3 a4 ch ct j j]
  have "shiftClosestTruck 0 1 ?h = Inr [[], [truckU, truckX, truckW]]"
    by (simp add: splice_out_def)
  moreover have "1 < sqrt (1 + (1 / 2 ^ 30)\<^sup>2)" by (rule real_less_rsqrt) simp
  then have "euclid (fin_of (truck_x truckU), fin_of (truck_y truckU)) truckW
     < euclid (fin_of (truck_x truckX), fin_of (truck_y truckX)) truckW"
    by (simp add: euclid_def truckU_def truckX_def truckW_def)
  ultimately show ?thesis by simp
qed

text \<open>
  C7. On a non-empty array of trucks with finite coordinates \<^verbatim>\<open>middlePoint\<close> returns
  the centre of the bounding box as the doubles give it: the sum of the least and the
  greatest coordinate, rounded, and the half of it, rounded. For the four corners of the
  square of side 10 it returns (5, 5).
\<close>

theorem middlePoint_bounding_box_center:
  "(trucks \<noteq> [] \<and> (\<forall>t\<in>set trucks. finite_truck t) \<longrightarrow>
      middlePoint trucks =
        (js_half (js_add (Fin (Min ((\<lambda>t. fin_of (truck_x t)) ` set trucks)))
                         (Fin (Max ((\<lambda>t. fin_of (truck_x t)) ` set trucks)))),
         js_half (js_add (Fin (Min ((\<lambda>t. fin_of (truck_y t)) ` set trucks)))
                         (Fin (Max ((\<lambda>t. fin_of (truck_y t)) ` set trucks)))))) \<and>
   middlePoint [\<lparr>truck_id = 1, truck_x = Fin 0, truck_y = Fin 0\<rparr>,
                \<lparr>truck_id = 2, truck_x = Fin 10, truck_y = Fin 0\<rparr>,
                \<lparr>truck_id = 3, truck_x = Fin 0, truck_y = Fin 10\<rparr>,
                \<lparr>truck_id = 4, truck_x = Fin 10, truck_y = Fin 10\<rparr>] = (Fin 5, Fin 5)"
proof (intro conjI impI)
  assume "trucks \<noteq> [] \<and> (\<forall>t\<in>set trucks. finite_truck t)"
  then show "middlePoint trucks =
        (js_half (js_add (Fin (Min ((\<lambda>t. fin_of (truck_x t)) ` set trucks)))
                         (Fin (Max ((\<lambda>t. fin_of (truck_x t)) ` set trucks)))),
         js_half (js_add (Fin (Min ((\<lambda>t. fin_of (truck_y t)) ` set trucks)))
                         (Fin (Max ((\<lambda>t. fin_of (truck_y t)) ` set trucks)))))"
    using middlePoint_finite[of trucks] by blast
next
  show "middlePoint [\<lparr>truck_id = 1, truck_x = Fin 0, truck_y = Fin 0\<rparr>,
                \<lparr>truck_id = 2, truck_x = Fin 10, truck_y = Fin 0\<rparr>,
                \<lparr>truck_id = 3, truck_x = Fin 0, truck_y = Fin 10\<rparr>,
                \<lparr>truck_id = 4, truck_x = Fin 10, truck_y = Fin 10\<rparr>] = (Fin 5, Fin 5)"
    by (simp add: middlePoint_def Math_min_def Math_max_def round_double_values)
qed

text \<open>
  On A, B, C the centre of the bounding box is (5, 1/2), which is not the mean (5, 1/3)
  of the three points.
\<close>

theorem middlePoint_bounding_box_center_witness:
  "[truckA, truckB, truckC] \<noteq> [] \<and>
   finite_truck truckA \<and> finite_truck truckB \<and> finite_truck truckC \<and>
   middlePoint [truckA, truckB, truckC] = (Fin 5, Fin (1 / 2)) \<and>
   ((0 + 10 + 5) / 3, (0 + 0 + 1) / 3) \<noteq> (5 :: real, 1 / 2 :: real)"
proof -
  have ne: "[truckA, truckB, truckC] \<noteq> []" by simp
  have fin: "finite_truck truckA" "finite_truck truckB" "finite_truck truckC"
    by (simp_all add: finite_truck_def truckA_def truckB_def truckC_def)
  then have all: "\<forall>t\<in>set [truckA, truckB, truckC]. finite_truck t" by simp
  from middlePoint_bounding_box_center[of "[truckA, truckB, truckC]"] ne all
  have "middlePoint [truckA, truckB, truckC] =
        (js_half (js_add (Fin (Min ((\<lambda>t. fin_of (truck_x t)) ` set [truckA, truckB, truckC])))
                         (Fin (Max ((\<lambda>t. fin_of (truck_x t)) ` set [truckA, truckB, truckC])))),
         js_half (js_add (Fin (Min ((\<lambda>t. fin_of (truck_y t)) ` set [truckA, truckB, truckC])))
                         (Fin (Max ((\<lambda>t. fin_of (truck_y t)) ` set [truckA, truckB, truckC])))))"
    by blast
  then have "middlePoint [truckA, truckB, truckC] = (Fin 5, Fin (1 / 2))"
    by (simp add: truckA_def truckB_def truckC_def round_double_values)
  with fin show ?thesis by simp
qed

text \<open>
  The centre the doubles give need not be the exact centre. For S at (2^-60, 0) and W at
  (1, 0) the sum 2^-60 + 1 rounds to 1 and \<^verbatim>\<open>middlePoint\<close> returns (1/2, 0), while the
  exact centre of the bounding box has the abscissa (2^-60 + 1) / 2.
\<close>

theorem middlePoint_rounds:
  "middlePoint [truckS, truckW] = (Fin (1 / 2), Fin 0) \<and>
   (Min ((\<lambda>t. fin_of (truck_x t)) ` set [truckS, truckW])
      + Max ((\<lambda>t. fin_of (truck_x t)) ` set [truckS, truckW])) / 2 \<noteq> 1 / 2"
  by (simp add: middlePoint_def Math_min_def Math_max_def truckS_def truckW_def
      round_double_values round_double_tiny)

text \<open>
  C8. Let the displayed list \<open>ts\<close> have at least two trucks with distinct ids and let it
  be the array passed, let position \<open>k1\<close> hold the truck nearest by computed distance to
  the point \<^verbatim>\<open>middlePoint\<close> returns for \<open>ts\<close>, and let position \<open>k2\<close> of the remaining trucks
  hold the one nearest by computed distance to that first truck. When the loop of
  \<^verbatim>\<open>planRoute\<close> starts, the route is these two trucks in this order and the pool is \<open>ts\<close>
  without them; in the route returned they stand next to each other in this order, with
  the other trucks before and after them.
\<close>

theorem planRoute_first_two:
  assumes "displayedList s = Array d" and "d < length (heap s)"
    and "ts = heap s ! d"
    and "2 \<le> length ts" and "distinct (map truck_id ts)"
    and "nearest_at (middlePoint ts) ts k1"
    and "nearest_at (truck_x (ts ! k1), truck_y (ts ! k1)) (splice_out k1 ts) k2"
  shows "planRoute_seed d (heap s) =
       Inr (length (heap s), Suc (length (heap s)),
            heap s @ [splice_out k2 (splice_out k1 ts), [ts ! k1, splice_out k1 ts ! k2]]) \<and>
     (\<exists>pre post.
        planRoute (displayedList s) s =
          Some (Inr (Array (Suc (length (heap s))),
                     s\<lparr>heap := heap s @ [[], pre @ [ts ! k1, splice_out k1 ts ! k2] @ post]\<rparr>)) \<and>
        mset (pre @ post) = mset (splice_out k2 (splice_out k1 ts)))"
proof -
  have c1: "closest (heap s ! d) (middlePoint (heap s ! d))
      = Some (truck_id (ts ! k1), computed_distance (middlePoint ts) (ts ! k1))"
    using nearest_at_closest[OF assms(6)] assms(3) by simp
  from assms(6) have "k1 < length ts" by (simp add: nearest_at_def)
  then have "findIndex (\<lambda>truck. truck_id truck = truck_id (ts ! k1)) ts = Some k1"
    using assms(5) by (rule findIndex_distinct)
  then have j1: "findIndex (\<lambda>truck. truck_id truck = truck_id (ts ! k1)) (heap s ! d) = Some k1"
    using assms(3) by simp
  have c2: "closest (splice_out k1 (heap s ! d))
      (truck_x (heap s ! d ! k1), truck_y (heap s ! d ! k1))
      = Some (truck_id (splice_out k1 ts ! k2),
              computed_distance (truck_x (ts ! k1), truck_y (ts ! k1)) (splice_out k1 ts ! k2))"
    using nearest_at_closest[OF assms(7)] assms(3) by simp
  from assms(7) have "k2 < length (splice_out k1 ts)" by (simp add: nearest_at_def)
  moreover have "distinct (map truck_id (splice_out k1 ts))"
    using assms(5) by (rule distinct_map_splice_out)
  ultimately have "findIndex (\<lambda>truck. truck_id truck = truck_id (splice_out k1 ts ! k2))
       (splice_out k1 ts) = Some k2"
    by (rule findIndex_distinct)
  then have j2: "findIndex (\<lambda>truck. truck_id truck = truck_id (splice_out k1 ts ! k2))
               (splice_out k1 (heap s ! d)) = Some k2"
    using assms(3) by simp
  have len: "2 \<le> length (heap s ! d)" using assms(3) assms(4) by simp
  have "planRoute_seed d (heap s) =
       Inr (length (heap s), Suc (length (heap s)),
            heap s @ [splice_out k2 (splice_out k1 ts), [ts ! k1, splice_out k1 ts ! k2]])"
    using planRoute_seed_eval[OF assms(2) c1 j1 c2 j2] assms(3) by simp
  moreover have "\<exists>pre post.
        planRoute (displayedList s) s =
          Some (Inr (Array (Suc (length (heap s))),
                     s\<lparr>heap := heap s @ [[], pre @ [ts ! k1, splice_out k1 ts ! k2] @ post]\<rparr>)) \<and>
        mset (pre @ post) = mset (splice_out k2 (splice_out k1 ts))"
    using planRoute_eval[OF assms(1) assms(2) len c1 j1 c2 j2, of "displayedList s"] assms(3)
    by simp
  ultimately show ?thesis by blast
qed

theorem planRoute_first_two_witness:
  "displayedList \<lparr>displayedList = Array 0, heap = [[truckU, truckV, truckW]]\<rparr> = Array 0 \<and>
   0 < length (heap \<lparr>displayedList = Array 0, heap = [[truckU, truckV, truckW]]\<rparr>) \<and>
   2 \<le> length [truckU, truckV, truckW] \<and>
   distinct (map truck_id [truckU, truckV, truckW]) \<and>
   nearest_at (middlePoint [truckU, truckV, truckW]) [truckU, truckV, truckW] 0 \<and>
   nearest_at (truck_x truckU, truck_y truckU) [truckV, truckW] 0 \<and>
   planRoute_seed 0 [[truckU, truckV, truckW]] =
     Inr (1, 2, [[truckU, truckV, truckW], [truckW], [truckU, truckV]]) \<and>
   (\<exists>pre post.
      planRoute (Array 0) \<lparr>displayedList = Array 0, heap = [[truckU, truckV, truckW]]\<rparr> =
        Some (Inr (Array 2, \<lparr>displayedList = Array 0,
                             heap = [[truckU, truckV, truckW], [], pre @ [truckU, truckV] @ post]\<rparr>)) \<and>
      mset (pre @ post) = mset [truckW])"
proof -
  let ?s = "\<lparr>displayedList = Array 0, heap = [[truckU, truckV, truckW]]\<rparr>"
  let ?ts = "[truckU, truckV, truckW]"
  have a1: "displayedList ?s = Array 0" by simp
  have a2: "0 < length (heap ?s)" by simp
  have a3: "?ts = heap ?s ! 0" by simp
  have a4: "2 \<le> length ?ts" by simp
  have a5: "distinct (map truck_id ?ts)" by (simp add: truck_ids)
  have a6: "nearest_at (middlePoint ?ts) ?ts 0"
    by (simp add: nearest_at_def computed_distance_centre_UVW less_Suc_eq numeral_3_eq_3)
  have sp: "splice_out 0 ?ts = [truckV, truckW]" by (simp add: splice_out_def)
  have o: "(truck_x truckU, truck_y truckU) = (Fin 0, Fin 0)" by (simp add: truckU_def)
  have n2: "nearest_at (truck_x truckU, truck_y truckU) [truckV, truckW] 0"
    unfolding o
    by (simp add: nearest_at_def computed_distance_origin_V computed_distance_origin_W
        less_Suc_eq numeral_2_eq_2)
  have a7: "nearest_at (truck_x (?ts ! 0), truck_y (?ts ! 0)) (splice_out 0 ?ts) 0"
    unfolding sp using n2 by simp
  from planRoute_first_two[OF a1 a2 a3 a4 a5 a6 a7]
  have "planRoute_seed 0 [[truckU, truckV, truckW]] =
     Inr (1, 2, [[truckU, truckV, truckW], [truckW], [truckU, truckV]]) \<and>
   (\<exists>pre post.
      planRoute (Array 0) ?s =
        Some (Inr (Array 2, \<lparr>displayedList = Array 0,
                             heap = [[truckU, truckV, truckW], [], pre @ [truckU, truckV] @ post]\<rparr>)) \<and>
      mset (pre @ post) = mset [truckW])"
    unfolding sp by (simp add: splice_out_def numeral_2_eq_2)
  with a1 a2 a4 a5 a6 n2 show ?thesis by blast
qed

text \<open>
  The second truck placed need not be the remaining truck of least Euclidean distance to
  the first. With U at (0,0), V at (1, 2^-30) and W at (1,0) displayed in this order, all
  three are equally far from the centre and U is placed first. From U both V and W have
  the computed distance 1, so V, which comes first, is placed second and W stays in the
  pool, although W is strictly nearer to U than V is.
\<close>

theorem planRoute_second_truck_by_rounding:
  "planRoute_seed 0 [[truckU, truckV, truckW]] =
     Inr (1, 2, [[truckU, truckV, truckW], [truckW], [truckU, truckV]]) \<and>
   (\<exists>pre post.
      planRoute (Array 0) \<lparr>displayedList = Array 0, heap = [[truckU, truckV, truckW]]\<rparr> =
        Some (Inr (Array 2, \<lparr>displayedList = Array 0,
                             heap = [[truckU, truckV, truckW], [], pre @ [truckU, truckV] @ post]\<rparr>))) \<and>
   euclid (fin_of (truck_x truckU), fin_of (truck_y truckU)) truckW
     < euclid (fin_of (truck_x truckU), fin_of (truck_y truckU)) truckV"
proof -
  let ?s = "\<lparr>displayedList = Array 0, heap = [[truckU, truckV, truckW]]\<rparr>"
  let ?ts = "[truckU, truckV, truckW]"
  have dl: "0 < length (heap ?s)" by simp
  have c1: "closest (heap ?s ! 0) (middlePoint (heap ?s ! 0)) = Some (1, Fin (1 / 2))"
    by (simp add: closest_UVW_centre)
  have j1: "findIndex (\<lambda>truck. truck_id truck = 1) (heap ?s ! 0) = Some 0"
    by (simp add: truck_ids)
  have c2: "closest (splice_out 0 (heap ?s ! 0))
      (truck_x (heap ?s ! 0 ! 0), truck_y (heap ?s ! 0 ! 0)) = Some (2, Fin 1)"
    by (simp add: splice_out_def closest_VW_from_U)
  have j2: "findIndex (\<lambda>truck. truck_id truck = 2) (splice_out 0 (heap ?s ! 0)) = Some 0"
    by (simp add: splice_out_def truck_ids)
  have seed: "planRoute_seed 0 [[truckU, truckV, truckW]] =
     Inr (1, 2, [[truckU, truckV, truckW], [truckW], [truckU, truckV]])"
    using planRoute_seed_eval[OF dl c1 j1 c2 j2] by (simp add: splice_out_def)
  have "\<exists>pre post.
      planRoute (Array 0) ?s =
        Some (Inr (Array 2, \<lparr>displayedList = Array 0,
                             heap = [[truckU, truckV, truckW], [], pre @ [truckU, truckV] @ post]\<rparr>))"
    using planRoute_eval[OF _ dl _ c1 j1 c2 j2, of "Array 0"]
    by (simp add: splice_out_def numeral_2_eq_2) blast
  moreover have "euclid (fin_of (truck_x truckU), fin_of (truck_y truckU)) truckW
     < euclid (fin_of (truck_x truckU), fin_of (truck_y truckU)) truckV"
    using euclid_W_less_V by (simp add: truckU_def)
  ultimately show ?thesis using seed by blast
qed

text \<open>
  C9. \<^verbatim>\<open>planRoute\<close> returns on every well-formed state, with or without distinct ids.
  One call of \<^verbatim>\<open>shiftClosestTruck\<close> on a non-empty pool and a non-empty route, two
  different arrays, makes the pool shorter by exactly one truck; and the loop started on
  a pool and a non-empty route, two different arrays, returns with the pool empty.
\<close>

theorem planRoute_terminates:
  assumes "displayedList s = Array d" and "d < length (heap s)"
  shows "(\<exists>v s'. planRoute list s = Some (Inr (v, s'))) \<and>
     (\<forall>source dest h.
        source \<noteq> dest \<and> source < length h \<and> dest < length h \<and> h ! dest \<noteq> [] \<and> h ! source \<noteq> [] \<longrightarrow>
        (\<exists>h'. shiftClosestTruck source dest h = Inr h' \<and>
              Suc (length (h' ! source)) = length (h ! source))) \<and>
     (\<forall>source dest h.
        source \<noteq> dest \<and> source < length h \<and> dest < length h \<and> h ! dest \<noteq> [] \<longrightarrow>
        (\<exists>h'. route_loop source dest h = Some (Inr h') \<and> h' ! source = []))"
proof (intro conjI allI impI)
  show "\<exists>v s'. planRoute list s = Some (Inr (v, s'))"
  proof (cases "length (heap s ! d) < 2")
    case True
    with assms(1) show ?thesis by (simp add: planRoute_short)
  next
    case False
    then have "2 \<le> length (heap s ! d)" by simp
    from planRoute_general[OF assms this, of list] show ?thesis by blast
  qed
next
  fix source dest and h :: "'b heap"
  assume a: "source \<noteq> dest \<and> source < length h \<and> dest < length h \<and> h ! dest \<noteq> [] \<and> h ! source \<noteq> []"
  then have ne: "source \<noteq> dest" and sl: "source < length h" and dl: "dest < length h"
    and dne: "h ! dest \<noteq> []" and sne: "h ! source \<noteq> []" by simp_all
  from shiftClosestTruck_some[OF ne sl dl dne sne] obtain j h' where
    jl: "j < length (h ! source)" and sh: "shiftClosestTruck source dest h = Inr h'"
    and h': "h' = h[source := splice_out j (h ! source), dest := (h ! source ! j) # (h ! dest)]
           \<or> h' = h[source := splice_out j (h ! source), dest := (h ! dest) @ [h ! source ! j]]"
    by blast
  from h' ne sl have "h' ! source = splice_out j (h ! source)" by auto
  with jl have "Suc (length (h' ! source)) = length (h ! source)"
    by (simp add: length_splice_out)
  with sh show "\<exists>h'. shiftClosestTruck source dest h = Inr h' \<and>
              Suc (length (h' ! source)) = length (h ! source)" by blast
next
  fix source dest and h :: "'c heap"
  assume a: "source \<noteq> dest \<and> source < length h \<and> dest < length h \<and> h ! dest \<noteq> []"
  then have ne: "source \<noteq> dest" and sl: "source < length h" and dl: "dest < length h"
    and dne: "h ! dest \<noteq> []" by simp_all
  from route_loop_total[OF ne sl dl dne] obtain pre post where
    "route_loop source dest h = Some (Inr (h[source := [], dest := pre @ h ! dest @ post]))"
    by blast
  moreover have "h[source := [], dest := pre @ h ! dest @ post] ! source = []"
    using ne sl by simp
  ultimately show "\<exists>h'. route_loop source dest h = Some (Inr h') \<and> h' ! source = []" by blast
qed

theorem planRoute_terminates_witness:
  "displayedList \<lparr>displayedList = Array 0, heap = [[truckA, truckB, truckC]]\<rparr> = Array 0 \<and>
   0 < length (heap \<lparr>displayedList = Array 0, heap = [[truckA, truckB, truckC]]\<rparr>) \<and>
   (\<exists>v s'. planRoute (Array 0) \<lparr>displayedList = Array 0, heap = [[truckA, truckB, truckC]]\<rparr>
        = Some (Inr (v, s'))) \<and>
   (\<exists>h'. shiftClosestTruck 0 1 [[truckR], [truckP, truckQ]] = Inr h' \<and>
         Suc (length (h' ! 0)) = length ([[truckR], [truckP, truckQ]] ! 0)) \<and>
   (\<exists>h'. route_loop 0 1 [[truckR], [truckP, truckQ]] = Some (Inr h') \<and> h' ! 0 = [])"
proof -
  let ?s = "\<lparr>displayedList = Array 0, heap = [[truckA, truckB, truckC]]\<rparr>"
  let ?h = "[[truckR], [truckP, truckQ]]"
  have a1: "displayedList ?s = Array 0" by simp
  have a2: "0 < length (heap ?s)" by simp
  note t = planRoute_terminates[OF a1 a2, of "Array 0"]
  from t have c1: "\<exists>v s'. planRoute (Array 0) ?s = Some (Inr (v, s'))" by blast
  have p2: "(0::nat) \<noteq> 1 \<and> 0 < length ?h \<and> 1 < length ?h \<and> ?h ! 1 \<noteq> [] \<and> ?h ! 0 \<noteq> []" by simp
  have p3: "(0::nat) \<noteq> 1 \<and> 0 < length ?h \<and> 1 < length ?h \<and> ?h ! 1 \<noteq> []" by simp
  from t have "\<forall>source dest (h :: truck list list).
        source \<noteq> dest \<and> source < length h \<and> dest < length h \<and> h ! dest \<noteq> [] \<and> h ! source \<noteq> [] \<longrightarrow>
        (\<exists>h'. shiftClosestTruck source dest h = Inr h' \<and>
              Suc (length (h' ! source)) = length (h ! source))" by blast
  with p2 have c2: "\<exists>h'. shiftClosestTruck 0 1 ?h = Inr h' \<and>
         Suc (length (h' ! 0)) = length (?h ! 0)" by blast
  from t have "\<forall>source dest (h :: truck list list).
        source \<noteq> dest \<and> source < length h \<and> dest < length h \<and> h ! dest \<noteq> [] \<longrightarrow>
        (\<exists>h'. route_loop source dest h = Some (Inr h') \<and> h' ! source = [])" by blast
  with p3 have c3: "\<exists>h'. route_loop 0 1 ?h = Some (Inr h') \<and> h' ! 0 = []" by blast
  from a1 a2 c1 c2 c3 show ?thesis by blast
qed

text \<open>
  C10. \<^verbatim>\<open>closest\<close> on an empty array returns \<^verbatim>\<open>null\<close>, whatever the target is.
\<close>

theorem closest_empty_null: "closest [] (x, y) = None"
  by (simp add: closest_def)

end
